theory Spec2Isabelle
  imports Main "HOL-Library.Word" "HOL-Library.Sublist"
begin

unbundle bit_operations_syntax

section \<open>Buffers, files and errors\<close>

text \<open>
  A Node \<open>Buffer\<close> is a list of bytes. The file system the services read is a partial
  map from paths to file contents. Every \<open>throw\<close> of the source is a value of
  \<open>error\<close>; a function that can throw returns \<open>error + 'a\<close>.
\<close>

type_synonym byte = "8 word"
type_synonym buffer = "byte list"
type_synonym filesystem = "string \<rightharpoonup> buffer"

datatype error =
    FileMissing            \<comment> \<open>getDatVersion: the path does not exist\<close>
  | ReadFailed             \<comment> \<open>readFileSync on a path that does not exist\<close>
  | FileTooSmall           \<comment> \<open>decryptDatV4: fewer than 15 bytes\<close>
  | AesSizeExceedsFile     \<comment> \<open>decryptDatV4: aligned AES size beyond the body\<close>
  | XorSizeIllegal         \<comment> \<open>decryptDatV4: xorSize negative or beyond the rest\<close>
  | RawShorterThanXor      \<comment> \<open>decryptDatV4: negative raw length\<close>
  | NeedFourBytes          \<comment> \<open>bytesToInt32: argument not 4 bytes long\<close>
  | AesKeyTooShort         \<comment> \<open>asciiKey16: fewer than 16 characters\<close>
  | PaddingEmpty           \<comment> \<open>strictRemovePadding: empty input\<close>
  | PaddingLengthIllegal   \<comment> \<open>strictRemovePadding: padding length out of range\<close>
  | PaddingContentIllegal  \<comment> \<open>strictRemovePadding: a padding byte differs\<close>
  | AesKeyNotConfigured    \<comment> \<open>decryptDatAuto: V2 container without a 16-byte key\<close>
  | CipherFailed           \<comment> \<open>crypto: key not 16 bytes, or input not whole blocks\<close>

text \<open>
  \<open>Buffer.subarray(start, end)\<close>: a negative index counts from the end of the buffer,
  both indices are clamped to the buffer, and an end before the start gives the empty
  buffer.
\<close>

definition relativeIndex :: "nat \<Rightarrow> int \<Rightarrow> nat" where
  "relativeIndex len i = (if i < 0 then nat (max 0 (int len + i)) else min (nat i) len)"

definition subarray :: "'a list \<Rightarrow> int \<Rightarrow> int \<Rightarrow> 'a list" where
  "subarray buf start end =
     (let s = relativeIndex (length buf) start;
          e = relativeIndex (length buf) end
      in take (e - s) (drop s buf))"

definition subarrayFrom :: "'a list \<Rightarrow> int \<Rightarrow> 'a list" where
  "subarrayFrom buf start = subarray buf start (int (length buf))"

section \<open>Image container decryptor\<close>

subsection \<open>compareBytes and getDatVersion\<close>

function compareBytesLoop :: "buffer \<Rightarrow> buffer \<Rightarrow> nat \<Rightarrow> bool" where
  "compareBytesLoop a b i =
     (if i < length a
      then (if a ! i \<noteq> b ! i then False else compareBytesLoop a b (i + 1))
      else True)"
  by pat_completeness auto
termination
  by (relation "measure (\<lambda>(a, b, i). length a - i)") auto

declare compareBytesLoop.simps [simp del]

definition compareBytes :: "buffer \<Rightarrow> buffer \<Rightarrow> bool" where
  "compareBytes a b = (if length a \<noteq> length b then False else compareBytesLoop a b 0)"

definition signatureV1 :: buffer where
  "signatureV1 = [0x07, 0x08, 0x56, 0x31, 0x08, 0x07]"

definition signatureV2 :: buffer where
  "signatureV2 = [0x07, 0x08, 0x56, 0x32, 0x08, 0x07]"

definition getDatVersion :: "filesystem \<Rightarrow> string \<Rightarrow> error + nat" where
  "getDatVersion fs inputPath =
     (case fs inputPath of
        None \<Rightarrow> Inl FileMissing
      | Some bytes \<Rightarrow>
          if length bytes < 6 then Inr 0
          else let signature = subarray bytes 0 6
               in if compareBytes signature signatureV1 then Inr 1
                  else if compareBytes signature signatureV2 then Inr 2
                  else Inr 0)"

subsection \<open>decryptDatV3: XOR of every byte\<close>

text \<open>
  \<open>data[i] ^ xorKey\<close> is computed on 32-bit integers (the key is a JavaScript number,
  here an integer); storing the result into a buffer keeps its low 8 bits.
\<close>

definition xorByte :: "int \<Rightarrow> byte \<Rightarrow> byte" where
  "xorByte xorKey d = ucast ((ucast d :: 32 word) XOR (word_of_int xorKey :: 32 word))"

function xorLoop :: "buffer \<Rightarrow> int \<Rightarrow> buffer \<Rightarrow> nat \<Rightarrow> buffer" where
  "xorLoop data xorKey out i =
     (if i < length data
      then xorLoop data xorKey (out[i := xorByte xorKey (data ! i)]) (i + 1)
      else out)"
  by pat_completeness auto
termination
  by (relation "measure (\<lambda>(data, xorKey, out, i). length data - i)") auto

declare xorLoop.simps [simp del]

definition decryptDatV3 :: "filesystem \<Rightarrow> string \<Rightarrow> int \<Rightarrow> error + buffer" where
  "decryptDatV3 fs inputPath xorKey =
     (case fs inputPath of
        None \<Rightarrow> Inl ReadFailed
      | Some data \<Rightarrow> Inr (xorLoop data xorKey (replicate (length data) 0) 0))"

subsection \<open>strictRemovePadding\<close>

function paddingLoop :: "buffer \<Rightarrow> byte \<Rightarrow> nat \<Rightarrow> bool" where
  "paddingLoop data paddingLength i =
     (if i < length data
      then (if data ! i \<noteq> paddingLength then False
            else paddingLoop data paddingLength (i + 1))
      else True)"
  by pat_completeness auto
termination
  by (relation "measure (\<lambda>(data, p, i). length data - i)") auto

declare paddingLoop.simps [simp del]

definition strictRemovePadding :: "buffer \<Rightarrow> error + buffer" where
  "strictRemovePadding data =
     (if length data = 0 then Inl PaddingEmpty
      else let paddingLength = data ! (length data - 1)
           in if paddingLength = 0 \<or> unat paddingLength > 16
                 \<or> unat paddingLength > length data
              then Inl PaddingLengthIllegal
              else if \<not> paddingLoop data paddingLength (length data - unat paddingLength)
              then Inl PaddingContentIllegal
              else Inr (subarray data 0 (int (length data) - int (unat paddingLength))))"


subsection \<open>bytesToInt32, asciiKey16 and the cipher\<close>

text \<open>
  \<open>bytes[0] | (bytes[1] << 8) | (bytes[2] << 16) | (bytes[3] << 24)\<close> is a signed
  32-bit integer: a top byte of 0x80 or more makes it negative.
\<close>

definition bytesToInt32 :: "buffer \<Rightarrow> error + int" where
  "bytesToInt32 bytes =
     (if length bytes \<noteq> 4 then Inl NeedFourBytes
      else Inr (sint ((ucast (bytes ! 0) :: 32 word)
                  OR push_bit 8 (ucast (bytes ! 1))
                  OR push_bit 16 (ucast (bytes ! 2))
                  OR push_bit 24 (ucast (bytes ! 3)))))"

text \<open>
  \<open>Buffer.from(keyString, 'ascii')\<close> gives one byte for each character of the string.
\<close>

definition asciiKey16 :: "string \<Rightarrow> error + buffer" where
  "asciiKey16 keyString =
     (if length keyString < 16 then Inl AesKeyTooShort
      else Inr (subarray (map of_char keyString) 0 16))"

definition defaultV1AesKey :: string where
  "defaultV1AesKey = ''cfcd208495d565ef''"

text \<open>
  The remainder operator of JavaScript truncates towards zero: the result has the sign
  of the dividend.
\<close>

definition jsRem :: "int \<Rightarrow> int \<Rightarrow> int" where
  "jsRem a b = sgn a * (\<bar>a\<bar> mod \<bar>b\<bar>)"

text \<open>
  AES-128-ECB of Node's \<open>crypto\<close> with automatic padding switched off. The block
  cipher itself is a parameter \<open>cipher key data\<close>; what the library checks is here:
  a key that is not 16 bytes makes \<open>createDecipheriv\<close> throw, an input that is not a
  whole number of 16-byte blocks makes \<open>final\<close> throw.
\<close>

type_synonym cipher = "buffer \<Rightarrow> buffer \<Rightarrow> buffer"

definition aes128EcbDecrypt :: "cipher \<Rightarrow> buffer \<Rightarrow> buffer \<Rightarrow> error + buffer" where
  "aes128EcbDecrypt cipher aesKey aesData =
     (if length aesKey \<noteq> 16 \<or> length aesData mod 16 \<noteq> 0 then Inl CipherFailed
      else Inr (cipher aesKey aesData))"

subsection \<open>decryptDatV4: header, AES region, raw region, XOR region\<close>

definition alignedAesSize :: "int \<Rightarrow> int" where
  "alignedAesSize aesSize =
     (let remainder = jsRem (jsRem aesSize 16 + 16) 16
      in aesSize + (16 - remainder))"

text \<open>
  The slicing of decryptDatV4 up to the AES region: the size fields of the header, the
  length check, and the two slices \<open>aesData\<close> and \<open>remaining\<close> of the body.
\<close>

record datRegions =
  r_aesData :: buffer
  r_remaining :: buffer
  r_xorSize :: int

definition splitDatV4 :: "buffer \<Rightarrow> error + datRegions" where
  "splitDatV4 bytes =
     (if length bytes < 0x0f then Inl FileTooSmall
      else let header = subarray bytes 0 0x0f;
               data = subarrayFrom bytes 0x0f
           in case bytesToInt32 (subarray header 6 10) of
                Inl e \<Rightarrow> Inl e
              | Inr aesSize \<Rightarrow>
                 (case bytesToInt32 (subarray header 10 14) of
                    Inl e \<Rightarrow> Inl e
                  | Inr xorSize \<Rightarrow>
                      if alignedAesSize aesSize > int (length data)
                      then Inl AesSizeExceedsFile
                      else Inr \<lparr> r_aesData = subarray data 0 (alignedAesSize aesSize),
                                 r_remaining = subarrayFrom data (alignedAesSize aesSize),
                                 r_xorSize = xorSize \<rparr>))"

definition decryptDatV4Bytes :: "cipher \<Rightarrow> buffer \<Rightarrow> int \<Rightarrow> buffer \<Rightarrow> error + buffer" where
  "decryptDatV4Bytes cipher bytes xorKey aesKey =
     (case splitDatV4 bytes of
        Inl e \<Rightarrow> Inl e
      | Inr r \<Rightarrow>
         (case (if length (r_aesData r) > 0
                then (case aes128EcbDecrypt cipher aesKey (r_aesData r) of
                        Inl e \<Rightarrow> Inl e
                      | Inr decrypted \<Rightarrow> strictRemovePadding decrypted)
                else Inr []) of
            Inl e \<Rightarrow> Inl e
          | Inr unpadded \<Rightarrow>
              if r_xorSize r < 0 \<or> r_xorSize r > int (length (r_remaining r))
              then Inl XorSizeIllegal
              else if r_xorSize r > 0
              then let rawLength = int (length (r_remaining r)) - r_xorSize r
                   in if rawLength < 0 then Inl RawShorterThanXor
                      else let rawData = subarray (r_remaining r) 0 rawLength;
                               xorData = subarrayFrom (r_remaining r) rawLength;
                               xoredData = xorLoop xorData xorKey
                                             (replicate (length xorData) 0) 0
                           in Inr (unpadded @ rawData @ xoredData)
              else Inr (unpadded @ r_remaining r @ [])))"

text \<open>
  ImageDecryptService.decryptDatV4 reads the file and runs the body above;
  ChatService.decryptDatV4 has the same body and is given the bytes.
\<close>

definition decryptDatV4 :: "cipher \<Rightarrow> filesystem \<Rightarrow> string \<Rightarrow> int \<Rightarrow> buffer \<Rightarrow> error + buffer" where
  "decryptDatV4 cipher fs inputPath xorKey aesKey =
     (case fs inputPath of
        None \<Rightarrow> Inl ReadFailed
      | Some bytes \<Rightarrow> decryptDatV4Bytes cipher bytes xorKey aesKey)"

subsection \<open>decryptDatAuto\<close>

text \<open>
  The key argument is \<open>Buffer | null\<close>: \<open>None\<close> is null. A buffer, also an empty one,
  is truthy.
\<close>

definition decryptDatAuto ::
  "cipher \<Rightarrow> filesystem \<Rightarrow> string \<Rightarrow> int \<Rightarrow> buffer option \<Rightarrow> error + buffer" where
  "decryptDatAuto cipher fs datPath xorKey aesKey =
     (case getDatVersion fs datPath of
        Inl e \<Rightarrow> Inl e
      | Inr version \<Rightarrow>
          if version = 0 then decryptDatV3 fs datPath xorKey
          else if version = 1
          then (case asciiKey16 defaultV1AesKey of
                  Inl e \<Rightarrow> Inl e
                | Inr key \<Rightarrow> decryptDatV4 cipher fs datPath xorKey key)
          else (case aesKey of
                  None \<Rightarrow> Inl AesKeyNotConfigured
                | Some key \<Rightarrow>
                    if length key \<noteq> 16 then Inl AesKeyNotConfigured
                    else decryptDatV4 cipher fs datPath xorKey key))"

section \<open>Message records and their order\<close>

text \<open>
  The fields of \<open>Message\<close> the cursor manager reads; the other fields are the
  record's extension. Numbers are integers, optional strings are \<open>string option\<close>.
\<close>

record message =
  localId :: int
  serverId :: int
  localType :: int
  createTime :: int
  sortSeq :: int
  emojiCdnUrl :: "string option"
  emojiMd5 :: "string option"

text \<open>\<open>a || b || c || 0\<close> on numbers: the first operand that is not 0.\<close>

definition orderingKey :: "'a message_scheme \<Rightarrow> int" where
  "orderingKey m =
     (if sortSeq m \<noteq> 0 then sortSeq m
      else if createTime m \<noteq> 0 then createTime m
      else if localId m \<noteq> 0 then localId m
      else 0)"

definition normalizeMessageOrder :: "'a message_scheme list \<Rightarrow> 'a message_scheme list" where
  "normalizeMessageOrder messages =
     (if length messages < 2 then messages
      else let first = messages ! 0;
               last = messages ! (length messages - 1);
               firstKey = orderingKey first;
               lastKey = orderingKey last
           in if firstKey > lastKey then rev messages else messages)"

text \<open>Sample data: a message with the given sortSeq, createTime and localId.\<close>

definition sampleMessage :: "int \<Rightarrow> int \<Rightarrow> int \<Rightarrow> message" where
  "sampleMessage s c l = \<lparr> localId = l, serverId = 0, localType = 1, createTime = c, sortSeq = s,
     emojiCdnUrl = None, emojiMd5 = None \<rparr>"

text \<open>
  Sample data: a 15-byte V1 header whose aesSize field is EF FF FF FF, that is -17, and
  whose xorSize field is 0.
\<close>

definition negAesHeader :: buffer where
  "negAesHeader = [0x07, 0x08, 0x56, 0x31, 0x08, 0x07, 0xEF, 0xFF, 0xFF, 0xFF, 0, 0, 0, 0, 0]"

section \<open>Hardlink resolver: resolveDatPath\<close>

subsection \<open>Strings\<close>

text \<open>
  A string is a list of characters with codes up to U+00FF. \<open>if (s)\<close> on an optional
  string holds when the string is present and not empty. \<open>toLowerCase\<close> lowers the
  letters A to Z and, of the codes above U+007F, the capital letters U+00C0 to U+00DE
  (U+00D7, the multiplication sign, is no letter). \<open>endsWith\<close> is \<open>suffix\<close>,
  \<open>includes\<close> is \<open>sublist\<close>, \<open>slice(0, -n)\<close> drops the last n characters.
\<close>

definition truthy :: "string option \<Rightarrow> bool" where
  "truthy s = (case s of None \<Rightarrow> False | Some v \<Rightarrow> v \<noteq> [])"

definition lowerChar :: "char \<Rightarrow> char" where
  "lowerChar c =
     (let n = (of_char c :: nat)
      in if (65 \<le> n \<and> n \<le> 90) \<or> (192 \<le> n \<and> n \<le> 222 \<and> n \<noteq> 215) then char_of (n + 32) else c)"

definition toLowerCase :: "string \<Rightarrow> string" where
  "toLowerCase s = map lowerChar s"

definition sliceEnd :: "string \<Rightarrow> nat \<Rightarrow> string" where
  "sliceEnd s n = take (length s - n) s"

definition isLowerLetter :: "char \<Rightarrow> bool" where
  "isLowerLetter c = (let n = (of_char c :: nat) in 97 \<le> n \<and> n \<le> 122)"

definition isHexDigit :: "char \<Rightarrow> bool" where
  "isHexDigit c = (let n = (of_char c :: nat) in
     (48 \<le> n \<and> n \<le> 57) \<or> (65 \<le> n \<and> n \<le> 70) \<or> (97 \<le> n \<and> n \<le> 102))"

text \<open>The regular expression \<open>/[._][a-z]$/\<close>.\<close>

definition hasVariantSuffix :: "string \<Rightarrow> bool" where
  "hasVariantSuffix base =
     (2 \<le> length base \<and> isLowerLetter (last base)
      \<and> (last (butlast base) = CHR ''.'' \<or> last (butlast base) = CHR ''_''))"

text \<open>The regular expression \<open>/^[a-fA-F0-9]{16,32}$/\<close>.\<close>

definition looksLikeMd5 :: "string \<Rightarrow> bool" where
  "looksLikeMd5 v = (16 \<le> length v \<and> length v \<le> 32 \<and> list_all isHexDigit v)"

function stripVariants :: "string \<Rightarrow> string" where
  "stripVariants base = (if hasVariantSuffix base then stripVariants (sliceEnd base 2) else base)"
  by pat_completeness auto
termination
  by (relation "measure length") (auto simp: hasVariantSuffix_def sliceEnd_def)

declare stripVariants.simps [simp del]

definition normalizeDatBase :: "string \<Rightarrow> string" where
  "normalizeDatBase name =
     (let base = toLowerCase name;
          base = (if suffix ''.dat'' base \<or> suffix ''.jpg'' base then sliceEnd base 4 else base)
      in stripVariants base)"

subsection \<open>The service's environment and state\<close>

text \<open>
  What the resolver calls and this file does not define enters as a function:
  \<open>basename\<close>, \<open>extname\<close> and \<open>join\<close> of Node's path module, \<open>existsSync\<close>,
  the lookup in the hardlink database (resolveHardlinkPath: account directory, hash,
  session) and the directory walk run in a worker (walkForDatInWorker: root, name, depth,
  allowThumbnail, thumbOnly).
  The state is the resolved-path cache and the list of directory walks started so far,
  latest first.
\<close>

record imageEnv =
  basename :: "string \<Rightarrow> string"
  extname :: "string \<Rightarrow> string"
  joinPath :: "string list \<Rightarrow> string"
  existsSync :: "string \<Rightarrow> bool"
  resolveHardlinkPath :: "string \<Rightarrow> string \<Rightarrow> string option \<Rightarrow> string option"
  walkForDatInWorker :: "string \<Rightarrow> string \<Rightarrow> nat \<Rightarrow> bool \<Rightarrow> bool \<Rightarrow> string option"

record imageState =
  resolvedCache :: "string \<rightharpoonup> string"
  walks :: "(string \<times> string \<times> nat \<times> bool \<times> bool) list"

record resolveOptions =
  allowThumbnail :: "bool option"
  skipResolvedCache :: "bool option"

definition isThumbnailDat :: "string \<Rightarrow> bool" where
  "isThumbnailDat fileName = (sublist ''.t.dat'' fileName \<or> sublist ''_t.dat'' fileName)"

definition isThumbnailPath :: "imageEnv \<Rightarrow> string \<Rightarrow> bool" where
  "isThumbnailPath env filePath =
     (let lower = toLowerCase (basename env filePath)
      in if isThumbnailDat lower then True
         else let ext = extname env lower;
                  base = (if ext \<noteq> [] then sliceEnd lower (length ext) else lower)
              in suffix ''_t'' base \<or> suffix ''_thumb'' base)"

definition cacheDatPath :: "imageState \<Rightarrow> string \<Rightarrow> string \<Rightarrow> string \<Rightarrow> imageState" where
  "cacheDatPath st accountDir datName datPath =
     (let key = accountDir @ ''|'' @ datName;
          st1 = st\<lparr> resolvedCache := (resolvedCache st)(key \<mapsto> datPath) \<rparr>;
          normalized = normalizeDatBase datName
      in if normalized \<noteq> [] \<and> normalized \<noteq> toLowerCase datName
         then st1\<lparr> resolvedCache := (resolvedCache st1)(accountDir @ ''|'' @ normalized \<mapsto> datPath) \<rparr>
         else st1)"

definition searchDatFile ::
  "imageEnv \<Rightarrow> imageState \<Rightarrow> string \<Rightarrow> string \<Rightarrow> bool \<Rightarrow> bool \<Rightarrow> string option \<times> imageState" where
  "searchDatFile env st accountDir datName allowThumb thumbOnly =
     (let key = accountDir @ ''|'' @ datName;
          cached = resolvedCache st key
      in if truthy cached \<and> existsSync env (the cached)
            \<and> (allowThumb \<or> \<not> isThumbnailPath env (the cached))
         then (cached, st)
         else let root = joinPath env [accountDir, ''msg'', ''attach'']
              in if \<not> existsSync env root then (None, st)
                 else let found = walkForDatInWorker env root (toLowerCase datName) 8 allowThumb thumbOnly;
                          st1 = st\<lparr> walks := (root, toLowerCase datName, 8, allowThumb, thumbOnly) # walks st \<rparr>
                      in if truthy found
                         then (found, st1\<lparr> resolvedCache := (resolvedCache st1)(key \<mapsto> the found) \<rparr>)
                         else (None, st1))"

subsection \<open>resolveDatPath\<close>

text \<open>
  The part of resolveDatPath after the hardlink lookups: the guard for the
  high-definition-only mode, the resolved-path cache, the two directory searches.
\<close>

definition resolveDatPathSearch ::
  "imageEnv \<Rightarrow> imageState \<Rightarrow> string \<Rightarrow> string option \<Rightarrow> bool \<Rightarrow> bool \<Rightarrow> string option \<times> imageState" where
  "resolveDatPathSearch env st accountDir imageDatName allowThumb skipCache =
     (if \<not> allowThumb then (None, st)
      else if \<not> truthy imageDatName then (None, st)
      else let datName = the imageDatName;
               cached = resolvedCache st datName
           in if \<not> skipCache \<and> truthy cached \<and> existsSync env (the cached)
                 \<and> (allowThumb \<or> \<not> isThumbnailPath env (the cached))
              then (cached, st)
              else case searchDatFile env st accountDir datName allowThumb False of
                (datPath, st1) \<Rightarrow>
                  if truthy datPath
                  then (datPath,
                        cacheDatPath (st1\<lparr> resolvedCache := (resolvedCache st1)(datName \<mapsto> the datPath) \<rparr>)
                          accountDir datName (the datPath))
                  else let normalized = normalizeDatBase datName
                       in if normalized \<noteq> toLowerCase datName
                          then (case searchDatFile env st1 accountDir normalized allowThumb False of
                                  (normalizedPath, st2) \<Rightarrow>
                                    if truthy normalizedPath
                                    then (normalizedPath,
                                          cacheDatPath
                                            (st2\<lparr> resolvedCache := (resolvedCache st2)(datName \<mapsto> the normalizedPath) \<rparr>)
                                            accountDir datName (the normalizedPath))
                                    else (None, st2))
                          else (None, st1))"

definition resolveDatPath ::
  "imageEnv \<Rightarrow> imageState \<Rightarrow> string \<Rightarrow> string option \<Rightarrow> string option \<Rightarrow> string option
   \<Rightarrow> resolveOptions option \<Rightarrow> string option \<times> imageState" where
  "resolveDatPath env st accountDir imageMd5 imageDatName sessionId options =
     (let allowThumb = (case options of None \<Rightarrow> True
                        | Some opts \<Rightarrow> (case allowThumbnail opts of None \<Rightarrow> True | Some b \<Rightarrow> b));
          skipCache = (case options of None \<Rightarrow> False
                       | Some opts \<Rightarrow> (case skipResolvedCache opts of None \<Rightarrow> False | Some b \<Rightarrow> b))
      in if truthy imageMd5
         then let hardlinkPath = resolveHardlinkPath env accountDir (the imageMd5) sessionId
              in if truthy hardlinkPath
                    \<and> (allowThumb \<or> \<not> isThumbnailPath env (the hardlinkPath))
                 then (hardlinkPath,
                       let st1 = cacheDatPath st accountDir (the imageMd5) (the hardlinkPath)
                       in if truthy imageDatName
                          then cacheDatPath st1 accountDir (the imageDatName) (the hardlinkPath)
                          else st1)
                 else if truthy hardlinkPath
                    \<and> \<not> allowThumb \<and> isThumbnailPath env (the hardlinkPath)
                 then (None, st)
                 else if truthy imageDatName \<and> looksLikeMd5 (the imageDatName)
                    \<and> imageDatName \<noteq> imageMd5
                 then let fallbackPath = resolveHardlinkPath env accountDir (the imageDatName) sessionId
                      in if truthy fallbackPath
                            \<and> (allowThumb \<or> \<not> isThumbnailPath env (the fallbackPath))
                         then (fallbackPath,
                               cacheDatPath st accountDir (the imageDatName) (the fallbackPath))
                         else if truthy fallbackPath
                            \<and> \<not> allowThumb \<and> isThumbnailPath env (the fallbackPath)
                         then (None, st)
                         else resolveDatPathSearch env st accountDir imageDatName allowThumb skipCache
                 else resolveDatPathSearch env st accountDir imageDatName allowThumb skipCache
         else if truthy imageDatName \<and> looksLikeMd5 (the imageDatName)
         then let hardlinkPath = resolveHardlinkPath env accountDir (the imageDatName) sessionId
              in if truthy hardlinkPath
                    \<and> (allowThumb \<or> \<not> isThumbnailPath env (the hardlinkPath))
                 then (hardlinkPath,
                       cacheDatPath st accountDir (the imageDatName) (the hardlinkPath))
                 else if truthy hardlinkPath
                    \<and> \<not> allowThumb \<and> isThumbnailPath env (the hardlinkPath)
                 then (None, st)
                 else resolveDatPathSearch env st accountDir imageDatName allowThumb skipCache
         else resolveDatPathSearch env st accountDir imageDatName allowThumb skipCache)"


text \<open>
  Sample data: an environment whose hardlink database knows one hash and maps it to a
  thumbnail-suffixed file, and whose directory walk always finds a file.
\<close>

definition sampleBasename :: "string \<Rightarrow> string" where
  "sampleBasename p = rev (takeWhile (\<lambda>c. c \<noteq> CHR ''/'') (rev p))"

definition sampleExtname :: "string \<Rightarrow> string" where
  "sampleExtname p =
     (let b = sampleBasename p
      in if CHR ''.'' \<in> set b then CHR ''.'' # rev (takeWhile (\<lambda>c. c \<noteq> CHR ''.'') (rev b)) else [])"

definition sampleImageEnv :: imageEnv where
  "sampleImageEnv = \<lparr>
     basename = sampleBasename,
     extname = sampleExtname,
     joinPath = (\<lambda>ps. concat (map (\<lambda>p. p @ ''/'') ps)),
     existsSync = (\<lambda>p. True),
     resolveHardlinkPath = (\<lambda>accountDir md5 sessionId.
        if md5 = ''0123456789abcdef'' then Some ''/a/0123456789abcdef_t.dat'' else None),
     walkForDatInWorker = (\<lambda>root datName maxDepth allowThumb thumbOnly. Some ''/a/found.dat'') \<rparr>"

definition emptyImageState :: imageState where
  "emptyImageState = \<lparr> resolvedCache = Map.empty, walks = [] \<rparr>"

section \<open>Message cursor manager: getMessages\<close>

subsection \<open>The database service\<close>

text \<open>
  The cursor primitive of the database service (open, fetch a batch, close) and the
  connection check are not defined here; they enter as functions over the service's own
  state \<open>'db\<close>, together with the row normalizer mapRowsToMessages and the emoticon
  repair fallbackEmoticon. The result objects have optional fields.
\<close>

record connectResult =
  c_success :: bool
  c_error :: "string option"

record openResult =
  o_success :: bool
  o_cursor :: "int option"
  o_error :: "string option"

record 'row batchResult =
  b_success :: bool
  b_rows :: "'row list option"
  b_hasMore :: "bool option"
  b_error :: "string option"

record ('db, 'row, 'x) chatEnv =
  ensureConnected :: "'db \<Rightarrow> connectResult \<times> 'db"
  openMessageCursor :: "'db \<Rightarrow> string \<Rightarrow> int \<Rightarrow> bool \<Rightarrow> int \<Rightarrow> int \<Rightarrow> openResult \<times> 'db"
  fetchMessageBatch :: "'db \<Rightarrow> int \<Rightarrow> 'row batchResult \<times> 'db"
  closeMessageCursor :: "'db \<Rightarrow> int \<Rightarrow> 'db"
  mapRowsToMessages :: "'row list \<Rightarrow> 'x message_scheme list"
  fallbackEmoticon :: "'x message_scheme \<Rightarrow> 'x message_scheme"

subsection \<open>The manager's state and results\<close>

record cursorState =
  cs_cursor :: int
  cs_fetched :: int
  cs_batchSize :: int
  cs_startTime :: int
  cs_endTime :: int
  cs_ascending :: bool

record ('db, 'x) chatState =
  messageCursors :: "string \<rightharpoonup> cursorState"
  messageCache :: "string \<rightharpoonup> 'x message_scheme list"
  wcdb :: 'db

text \<open>
  The error texts of getMessages. \<open>Reported e\<close> is the text the database service gave;
  the others are the texts the manager supplies when the service gave none.
\<close>

datatype chatError =
    Reported string
  | NotConnected
  | OpenCursorFailed
  | SkipFailed
  | CursorStateMissing
  | FetchFailed
  | FetchRowsMissing

record 'x messagesResult =
  r_success :: bool
  r_messages :: "'x message_scheme list option"
  r_hasMore :: "bool option"
  r_error :: "chatError option"

definition failure :: "chatError \<Rightarrow> 'x messagesResult" where
  "failure e = \<lparr> r_success = False, r_messages = None, r_hasMore = None, r_error = Some e \<rparr>"

text \<open>\<open>result.error || text\<close>: the reported text when there is one and it is not empty.\<close>

definition errorOr :: "string option \<Rightarrow> chatError \<Rightarrow> chatError" where
  "errorOr reported fallback = (if truthy reported then Reported (the reported) else fallback)"

definition messageBatchDefault :: int where
  "messageBatchDefault = 50"

subsection \<open>Skipping to the offset\<close>

datatype skipOutcome = SkipError chatError | SkipExhausted | SkipDone

function skipToOffset ::
  "('db, 'row, 'x) chatEnv \<Rightarrow> 'db \<Rightarrow> cursorState \<Rightarrow> int \<Rightarrow> int \<Rightarrow> skipOutcome \<times> 'db \<times> cursorState" where
  "skipToOffset env d state skipped offset =
     (if skipped < offset
      then (let skipBatch = fst (fetchMessageBatch env d (cs_cursor state));
                d1 = snd (fetchMessageBatch env d (cs_cursor state))
            in if \<not> b_success skipBatch
               then (SkipError (errorOr (b_error skipBatch) SkipFailed), d1, state)
               else if b_rows skipBatch = None \<or> length (the (b_rows skipBatch)) = 0
               then (SkipExhausted, d1, state)
               else let state1 = state\<lparr> cs_fetched :=
                                   cs_fetched state + int (length (the (b_rows skipBatch))) \<rparr>
                    in if b_hasMore skipBatch \<noteq> Some True
                       then (SkipExhausted, d1, state1)
                       else skipToOffset env d1 state1
                              (skipped + int (length (the (b_rows skipBatch)))) offset)
      else (SkipDone, d, state))"
  by pat_completeness auto
termination
  by (relation "measure (\<lambda>(env, d, state, skipped, offset). nat (offset - skipped))") auto

declare skipToOffset.simps [simp del]

subsection \<open>Fetching the page\<close>

definition needsEmoticonFix :: "'x message_scheme \<Rightarrow> bool" where
  "needsEmoticonFix m = (localType m = 47 \<and> \<not> truthy (emojiCdnUrl m) \<and> truthy (emojiMd5 m))"

definition fetchPage ::
  "('db, 'row, 'x) chatEnv \<Rightarrow> ('db, 'x) chatState \<Rightarrow> string \<Rightarrow> cursorState
   \<Rightarrow> 'x messagesResult \<times> ('db, 'x) chatState" where
  "fetchPage env st sessionId state =
     (let batch = fst (fetchMessageBatch env (wcdb st) (cs_cursor state));
          d1 = snd (fetchMessageBatch env (wcdb st) (cs_cursor state))
      in if \<not> b_success batch
         then (failure (errorOr (b_error batch) FetchFailed), st\<lparr> wcdb := d1 \<rparr>)
         else case b_rows batch of
                None \<Rightarrow> (failure FetchRowsMissing, st\<lparr> wcdb := d1 \<rparr>)
              | Some rows \<Rightarrow>
                  let hasMore = (b_hasMore batch = Some True);
                      normalized = normalizeMessageOrder (mapRowsToMessages env rows);
                      fixed = map (\<lambda>m. if needsEmoticonFix m then fallbackEmoticon env m else m)
                                normalized;
                      state1 = state\<lparr> cs_fetched := cs_fetched state + int (length rows) \<rparr>
                  in (\<lparr> r_success = True, r_messages = Some fixed, r_hasMore = Some hasMore,
                        r_error = None \<rparr>,
                      st\<lparr> wcdb := d1,
                          messageCursors := (messageCursors st)(sessionId \<mapsto> state1),
                          messageCache := (messageCache st)(sessionId \<mapsto> fixed) \<rparr>))"

subsection \<open>getMessages\<close>

definition needNewCursor ::
  "cursorState option \<Rightarrow> int \<Rightarrow> int \<Rightarrow> int \<Rightarrow> int \<Rightarrow> bool \<Rightarrow> bool" where
  "needNewCursor state offset batchSize startTime endTime ascending =
     (state = None \<or> offset = 0
      \<or> cs_batchSize (the state) \<noteq> batchSize
      \<or> cs_startTime (the state) \<noteq> startTime
      \<or> cs_endTime (the state) \<noteq> endTime
      \<or> cs_ascending (the state) \<noteq> ascending)"

definition getMessages ::
  "('db, 'row, 'x) chatEnv \<Rightarrow> ('db, 'x) chatState \<Rightarrow> string \<Rightarrow> int \<Rightarrow> int \<Rightarrow> int \<Rightarrow> int \<Rightarrow> bool
   \<Rightarrow> 'x messagesResult \<times> ('db, 'x) chatState" where
  "getMessages env st sessionId offset limit startTime endTime ascending =
     (let connectResult = fst (ensureConnected env (wcdb st));
          d0 = snd (ensureConnected env (wcdb st))
      in if \<not> c_success connectResult
         then (failure (errorOr (c_error connectResult) NotConnected), st\<lparr> wcdb := d0 \<rparr>)
         else
           let batchSize = max 1 (if limit \<noteq> 0 then limit else messageBatchDefault);
               state = messageCursors st sessionId
           in if needNewCursor state offset batchSize startTime endTime ascending
              then
                let d1 = (case state of None \<Rightarrow> d0
                          | Some old \<Rightarrow> closeMessageCursor env d0 (cs_cursor old));
                    beginTimestamp = (if startTime > 10000000000 then startTime div 1000 else startTime);
                    endTimestamp = (if endTime > 10000000000 then endTime div 1000 else endTime);
                    cursorResult = fst (openMessageCursor env d1 sessionId batchSize ascending
                                          beginTimestamp endTimestamp);
                    d2 = snd (openMessageCursor env d1 sessionId batchSize ascending
                                beginTimestamp endTimestamp)
                in if \<not> o_success cursorResult \<or> o_cursor cursorResult = None
                      \<or> o_cursor cursorResult = Some 0
                   then (failure (errorOr (o_error cursorResult) OpenCursorFailed), st\<lparr> wcdb := d2 \<rparr>)
                   else
                     let state1 = \<lparr> cs_cursor = the (o_cursor cursorResult), cs_fetched = 0,
                                     cs_batchSize = batchSize, cs_startTime = startTime,
                                     cs_endTime = endTime, cs_ascending = ascending \<rparr>
                     in if offset > 0
                        then (case skipToOffset env d2 state1 0 offset of
                                (SkipError e, d3, state2) \<Rightarrow>
                                  (failure e,
                                   st\<lparr> wcdb := d3,
                                       messageCursors := (messageCursors st)(sessionId \<mapsto> state2) \<rparr>)
                              | (SkipExhausted, d3, state2) \<Rightarrow>
                                  (\<lparr> r_success = True, r_messages = Some [], r_hasMore = Some False,
                                     r_error = None \<rparr>,
                                   st\<lparr> wcdb := d3,
                                       messageCursors := (messageCursors st)(sessionId \<mapsto> state2) \<rparr>)
                              | (SkipDone, d3, state2) \<Rightarrow>
                                  fetchPage env
                                    (st\<lparr> wcdb := d3,
                                        messageCursors := (messageCursors st)(sessionId \<mapsto> state2) \<rparr>)
                                    sessionId state2)
                        else fetchPage env
                               (st\<lparr> wcdb := d2,
                                   messageCursors := (messageCursors st)(sessionId \<mapsto> state1) \<rparr>)
                               sessionId state1
              else (case state of
                      None \<Rightarrow> (failure CursorStateMissing, st\<lparr> wcdb := d0 \<rparr>)
                    | Some existing \<Rightarrow> fetchPage env (st\<lparr> wcdb := d0 \<rparr>) sessionId existing))"


subsection \<open>A reference database service\<close>

text \<open>
  Modelled from the spec: the forward-only batch cursor of the database service
  (wcdbService.openMessageCursor, fetchMessageBatch, closeMessageCursor), which is not
  among the sources. A cursor is opened over the rows of a session with a batch size;
  each fetch hands out the next batchSize rows and says whether rows remain. The service
  keeps a log of the calls it received, oldest first. Rows are numbers; the normalizer of
  the sample environment turns row n into a message whose keys are n.
\<close>

datatype dbCall = OpenCursor string int | FetchBatch int | CloseCursor int

record listDb =
  ld_rows :: "string \<Rightarrow> int list"
  ld_cursors :: "int \<rightharpoonup> int list \<times> int"
  ld_next :: int
  ld_calls :: "dbCall list"

definition listOpen :: "listDb \<Rightarrow> string \<Rightarrow> int \<Rightarrow> bool \<Rightarrow> int \<Rightarrow> int \<Rightarrow> openResult \<times> listDb" where
  "listOpen d sessionId batchSize asc beginTimestamp endTimestamp =
     (\<lparr> o_success = True, o_cursor = Some (ld_next d), o_error = None \<rparr>,
      d\<lparr> ld_cursors := (ld_cursors d)(ld_next d \<mapsto> (ld_rows d sessionId, batchSize)),
         ld_next := ld_next d + 1,
         ld_calls := ld_calls d @ [OpenCursor sessionId batchSize] \<rparr>)"

definition listFetch :: "listDb \<Rightarrow> int \<Rightarrow> int batchResult \<times> listDb" where
  "listFetch d c =
     (case ld_cursors d c of
        None \<Rightarrow> (\<lparr> b_success = False, b_rows = None, b_hasMore = None, b_error = None \<rparr>,
                 d\<lparr> ld_calls := ld_calls d @ [FetchBatch c] \<rparr>)
      | Some (rest, batchSize) \<Rightarrow>
          (\<lparr> b_success = True, b_rows = Some (take (nat batchSize) rest),
             b_hasMore = Some (drop (nat batchSize) rest \<noteq> []), b_error = None \<rparr>,
           d\<lparr> ld_cursors := (ld_cursors d)(c \<mapsto> (drop (nat batchSize) rest, batchSize)),
              ld_calls := ld_calls d @ [FetchBatch c] \<rparr>))"

definition listClose :: "listDb \<Rightarrow> int \<Rightarrow> listDb" where
  "listClose d c = d\<lparr> ld_cursors := (ld_cursors d)(c := None),
                      ld_calls := ld_calls d @ [CloseCursor c] \<rparr>"

definition listEnv :: "(listDb, int, unit) chatEnv" where
  "listEnv = \<lparr>
     ensureConnected = (\<lambda>d. (\<lparr> c_success = True, c_error = None \<rparr>, d)),
     openMessageCursor = listOpen,
     fetchMessageBatch = listFetch,
     closeMessageCursor = listClose,
     mapRowsToMessages = map (\<lambda>n. sampleMessage n n n),
     fallbackEmoticon = (\<lambda>m. m) \<rparr>"

definition sampleChatState :: "(listDb, unit) chatState" where
  "sampleChatState = \<lparr>
     messageCursors = Map.empty,
     messageCache = Map.empty,
     wcdb = \<lparr> ld_rows = (\<lambda>s. [1, 2, 3, 4, 5, 6, 7, 8, 9, 10, 11, 12]),
              ld_cursors = Map.empty, ld_next = 1, ld_calls = [] \<rparr> \<rparr>"

definition deliveredKeys :: "'x messagesResult \<Rightarrow> int list" where
  "deliveredKeys r = (case r_messages r of None \<Rightarrow> [] | Some ms \<Rightarrow> map orderingKey ms)"

section \<open>Voice retrieval: getVoiceDataFromMediaDb\<close>

subsection \<open>Values of rows and their conversions\<close>

text \<open>
  A row of a query result is a list of column names with values; a column that is
  missing reads as \<open>Undefined\<close>. The values are the ones the voice lookup can meet:
  numbers (integers), strings, buffers, typed arrays, arrays of numbers and objects.
\<close>

datatype jsValue =
    Undefined
  | Null
  | Num int
  | Str string
  | Buf buffer
  | Bytes buffer
  | Arr "int list"
  | Obj "(string \<times> jsValue) list"

type_synonym row = "(string \<times> jsValue) list"

definition field :: "row \<Rightarrow> string \<Rightarrow> jsValue" where
  "field r name = (case map_of r name of None \<Rightarrow> Undefined | Some v \<Rightarrow> v)"

definition falsy :: "jsValue \<Rightarrow> bool" where
  "falsy v = (v = Undefined \<or> v = Null \<or> v = Num 0 \<or> v = Str [])"

definition digitChar :: "nat \<Rightarrow> char" where
  "digitChar n = ''0123456789'' ! n"

function showNat :: "nat \<Rightarrow> string" where
  "showNat n = (if n < 10 then [digitChar n] else showNat (n div 10) @ [digitChar (n mod 10)])"
  by pat_completeness auto
termination
  by (relation "measure id") auto

declare showNat.simps [simp del]

definition showInt :: "int \<Rightarrow> string" where
  "showInt i = (if i < 0 then CHR ''-'' # showNat (nat (- i)) else showNat (nat i))"

definition joinWith :: "string \<Rightarrow> string list \<Rightarrow> string" where
  "joinWith sep xs = (case xs of [] \<Rightarrow> [] | y # ys \<Rightarrow> y @ concat (map (\<lambda>x. sep @ x) ys))"

text \<open>
  \<open>String(v)\<close>, as a template literal applies it. The text of a buffer is its bytes read
  as characters.
\<close>

definition jsString :: "jsValue \<Rightarrow> string" where
  "jsString v =
     (case v of
        Undefined \<Rightarrow> ''undefined''
      | Null \<Rightarrow> ''null''
      | Num n \<Rightarrow> showInt n
      | Str s \<Rightarrow> s
      | Buf b \<Rightarrow> map (\<lambda>x. char_of (unat x)) b
      | Bytes b \<Rightarrow> joinWith '','' (map (\<lambda>x. showNat (unat x)) b)
      | Arr xs \<Rightarrow> joinWith '','' (map showInt xs)
      | Obj fs \<Rightarrow> ''[object Object]'')"

text \<open>An element of \<open>Array.join\<close>: undefined and null give the empty text.\<close>

definition joinElement :: "jsValue \<Rightarrow> string" where
  "joinElement v = (if v = Undefined \<or> v = Null then [] else jsString v)"

text \<open>
  \<open>String.prototype.trim\<close> strips white space and line terminators from both ends. Of
  the codes up to U+00FF these are tab, line feed, vertical tab, form feed, carriage
  return, space and the no-break space U+00A0.
\<close>

definition isSpace :: "char \<Rightarrow> bool" where
  "isSpace c = (c = CHR '' '' \<or> c = CHR 0x09 \<or> c = CHR 0x0A \<or> c = CHR 0x0B \<or> c = CHR 0x0C
               \<or> c = CHR 0x0D \<or> c = CHR 0xA0)"

definition jsTrim :: "string \<Rightarrow> string" where
  "jsTrim s = rev (dropWhile isSpace (rev (dropWhile isSpace s)))"

subsection \<open>The environment and the state\<close>

text \<open>
  A query against a media database answers with a result object or throws. The query
  service (wcdbService.execQuery, listMediaDbs), the manual search for media databases
  and the hex and base64 decoders of \<open>Buffer.from\<close> enter as functions.
  The state holds the two caches of the lookup and a log of the queries sent, oldest
  first, each with the step of the lookup that sent it.
\<close>

record queryResult =
  q_success :: bool
  q_rows :: "row list option"

datatype queryOutcome = Threw | Returned queryResult

record listResult =
  l_success :: bool
  l_data :: "string list option"

record voiceEnv =
  execQuery :: "string \<Rightarrow> string \<Rightarrow> string \<Rightarrow> queryOutcome"
  listMediaDbs :: "listResult"
  findMediaDbsManually :: "string list"
  fromHex :: "string \<Rightarrow> buffer"
  fromBase64 :: "string \<Rightarrow> buffer"

record voiceSchema =
  voiceTable :: string
  dataColumn :: string
  chatNameIdColumn :: "string option"
  timeColumn :: "string option"
  name2IdTable :: jsValue

datatype lookupStep =
    FindVoiceTable | TableInfo | FindName2IdTable | IdentityIds
  | Strategy1 | Strategy2 | Strategy3

record voiceState =
  mediaDbsCache :: "string list option"
  mediaDbSchemaCache :: "string \<rightharpoonup> voiceSchema"
  queryLog :: "(lookupStep \<times> string \<times> string) list"

definition logged :: "voiceState \<Rightarrow> lookupStep \<Rightarrow> string \<Rightarrow> string \<Rightarrow> voiceState" where
  "logged st step dbPath sql = st\<lparr> queryLog := queryLog st @ [(step, dbPath, sql)] \<rparr>"

subsection \<open>decodeVoiceBlob\<close>

definition decodeVoiceBlob :: "voiceEnv \<Rightarrow> jsValue \<Rightarrow> buffer option" where
  "decodeVoiceBlob env raw =
     (if falsy raw then None
      else case raw of
        Buf b \<Rightarrow> Some b
      | Bytes b \<Rightarrow> Some b
      | Arr xs \<Rightarrow> Some (map of_int xs)
      | Str s \<Rightarrow>
          (let trimmed = jsTrim s
           in if trimmed \<noteq> [] \<and> list_all isHexDigit trimmed \<and> length trimmed mod 2 = 0
              then Some (fromHex env trimmed)
              else Some (fromBase64 env trimmed))
      | Obj fs \<Rightarrow> (case map_of fs ''data'' of Some (Arr xs) \<Rightarrow> Some (map of_int xs) | _ \<Rightarrow> None)
      | _ \<Rightarrow> None)"

text \<open>
  What each strategy does with its result: the first row of a successful, non-empty
  result is decoded.
\<close>

definition hasRows :: "queryResult \<Rightarrow> bool" where
  "hasRows r = (q_success r \<and> q_rows r \<noteq> None \<and> length (the (q_rows r)) > 0)"

definition decodeFirstRow :: "voiceEnv \<Rightarrow> queryResult \<Rightarrow> buffer option" where
  "decodeFirstRow env voiceResult =
     (if hasRows voiceResult
      then decodeVoiceBlob env (field (the (q_rows voiceResult) ! 0) ''data'')
      else None)"

subsection \<open>The queries\<close>

text \<open>
  The requested time is a JavaScript number, here an integer printed in decimal. That is
  what the source computes and prints when the time and the two ends of the window,
  \<open>createTime - 5\<close> and \<open>createTime + 5\<close>, are safe integers (below \<open>2^53\<close> in absolute
  value); a message time in seconds is.
\<close>

definition safeTime :: "int \<Rightarrow> bool" where
  "safeTime voiceTime = (\<bar>voiceTime\<bar> + 5 < 2 ^ 53)"

definition voiceTablesSql :: string where
  "voiceTablesSql = ''SELECT name FROM sqlite_master WHERE type='table' AND name LIKE 'VoiceInfo%'' @ [CHR 0x27]"

definition tableInfoSql :: "string \<Rightarrow> string" where
  "tableInfoSql table = ''PRAGMA table_info('' @ [CHR 0x27] @ table @ [CHR 0x27] @ '')''"

definition name2IdTablesSql :: string where
  "name2IdTablesSql = ''SELECT name FROM sqlite_master WHERE type='table' AND name LIKE 'Name2Id%'' @ [CHR 0x27]"

definition quoteCandidate :: "string \<Rightarrow> string" where
  "quoteCandidate c =
     [CHR 0x27] @ concat (map (\<lambda>ch. if ch = CHR 0x27 then [CHR 0x27, CHR 0x27] else [ch]) c) @ [CHR 0x27]"

definition identityIdsSql :: "voiceSchema \<Rightarrow> string list \<Rightarrow> string" where
  "identityIdsSql schema candidates =
     ''SELECT user_name, rowid FROM '' @ jsString (name2IdTable schema)
     @ '' WHERE user_name IN ('' @ joinWith '','' (map quoteCandidate candidates) @ '')''"

definition strategy1Sql :: "voiceSchema \<Rightarrow> jsValue list \<Rightarrow> int \<Rightarrow> string" where
  "strategy1Sql schema chatNameIds voiceTime =
     ''SELECT '' @ dataColumn schema @ '' AS data FROM '' @ voiceTable schema
     @ '' WHERE '' @ the (chatNameIdColumn schema)
     @ '' IN ('' @ joinWith '','' (map joinElement chatNameIds) @ '') AND ''
     @ the (timeColumn schema) @ '' = '' @ showInt voiceTime @ '' LIMIT 1''"

definition strategy2Sql :: "voiceSchema \<Rightarrow> int \<Rightarrow> string" where
  "strategy2Sql schema voiceTime =
     ''SELECT '' @ dataColumn schema @ '' AS data FROM '' @ voiceTable schema
     @ '' WHERE '' @ the (timeColumn schema) @ '' = '' @ showInt voiceTime @ '' LIMIT 1''"

definition strategy3Sql :: "voiceSchema \<Rightarrow> int \<Rightarrow> string" where
  "strategy3Sql schema voiceTime =
     ''SELECT '' @ dataColumn schema @ '' AS data FROM '' @ voiceTable schema
     @ '' WHERE '' @ the (timeColumn schema) @ '' BETWEEN '' @ showInt (voiceTime - 5)
     @ '' AND '' @ showInt (voiceTime + 5)
     @ '' ORDER BY ABS('' @ the (timeColumn schema) @ '' - '' @ showInt voiceTime @ '') LIMIT 1''"


subsection \<open>Schema discovery for one media database\<close>

definition columnName :: "row \<Rightarrow> string" where
  "columnName c = (if falsy (field c ''name'') then [] else jsString (field c ''name''))"

definition columnMapOf :: "row list \<Rightarrow> (string \<rightharpoonup> string)" where
  "columnMapOf rows =
     foldl (\<lambda>m c. if columnName c \<noteq> [] then m(toLowerCase (columnName c) \<mapsto> columnName c) else m)
       Map.empty rows"

definition findColumn :: "(string \<rightharpoonup> string) \<Rightarrow> string list \<Rightarrow> string option" where
  "findColumn columnMap names =
     (case find (\<lambda>n. columnMap n \<noteq> None) names of None \<Rightarrow> None | Some n \<Rightarrow> columnMap n)"

text \<open>
  The result \<open>None\<close> is the \<open>continue\<close> of the loop over the media databases: the
  database is left, either by a \<open>continue\<close> statement or by an exception the loop body
  catches.
\<close>

definition discoverSchema ::
  "voiceEnv \<Rightarrow> voiceState \<Rightarrow> string \<Rightarrow> voiceSchema option \<times> voiceState" where
  "discoverSchema env st dbPath =
     (case mediaDbSchemaCache st dbPath of
        Some schema \<Rightarrow> (Some schema, st)
      | None \<Rightarrow>
         (let st1 = logged st FindVoiceTable dbPath voiceTablesSql
          in case execQuery env ''media'' dbPath voiceTablesSql of
               Threw \<Rightarrow> (None, st1)
             | Returned tablesResult \<Rightarrow>
                 if \<not> hasRows tablesResult then (None, st1)
                 else
                   let table = jsString (field (the (q_rows tablesResult) ! 0) ''name'');
                       st2 = logged st1 TableInfo dbPath (tableInfoSql table)
                   in case execQuery env ''media'' dbPath (tableInfoSql table) of
                        Threw \<Rightarrow> (None, st2)
                      | Returned columnsResult \<Rightarrow>
                          if \<not> q_success columnsResult \<or> q_rows columnsResult = None
                          then (None, st2)
                          else
                            let columnMap = columnMapOf (the (q_rows columnsResult));
                                dataCol = findColumn columnMap
                                            [''voice_data'', ''buf'', ''voicebuf'', ''data'']
                            in if \<not> truthy dataCol then (None, st2)
                               else
                                 let chatNameIdCol = findColumn columnMap
                                        [''chat_name_id'', ''chatnameid'', ''chat_nameid''];
                                     timeCol = findColumn columnMap
                                        [''create_time'', ''createtime'', ''time''];
                                     st3 = logged st2 FindName2IdTable dbPath name2IdTablesSql
                                 in case execQuery env ''media'' dbPath name2IdTablesSql of
                                      Threw \<Rightarrow> (None, st3)
                                    | Returned name2IdTablesResult \<Rightarrow>
                                        let schema = \<lparr> voiceTable = table,
                                              dataColumn = the dataCol,
                                              chatNameIdColumn = chatNameIdCol,
                                              timeColumn = timeCol,
                                              name2IdTable =
                                                (if hasRows name2IdTablesResult
                                                 then field (the (q_rows name2IdTablesResult) ! 0) ''name''
                                                 else Undefined) \<rparr>
                                        in (Some schema,
                                            st3\<lparr> mediaDbSchemaCache :=
                                                   (mediaDbSchemaCache st3)(dbPath \<mapsto> schema) \<rparr>)))"

subsection \<open>The three strategies in one media database\<close>

text \<open>The condition of strategy 1: the schema names the identity column, the time column and
  the identity-lookup table.\<close>

definition hasIdentityColumns :: "voiceSchema \<Rightarrow> bool" where
  "hasIdentityColumns schema =
     (truthy (chatNameIdColumn schema) \<and> truthy (timeColumn schema)
      \<and> \<not> falsy (name2IdTable schema))"

definition strategy3 ::
  "voiceEnv \<Rightarrow> voiceState \<Rightarrow> string \<Rightarrow> voiceSchema \<Rightarrow> int \<Rightarrow> buffer option \<times> voiceState" where
  "strategy3 env st dbPath schema voiceTime =
     (if truthy (timeColumn schema)
      then let st1 = logged st Strategy3 dbPath (strategy3Sql schema voiceTime)
           in case execQuery env ''media'' dbPath (strategy3Sql schema voiceTime) of
                Threw \<Rightarrow> (None, st1)
              | Returned voiceResult \<Rightarrow> (decodeFirstRow env voiceResult, st1)
      else (None, st))"

definition strategy2 ::
  "voiceEnv \<Rightarrow> voiceState \<Rightarrow> string \<Rightarrow> voiceSchema \<Rightarrow> int \<Rightarrow> buffer option \<times> voiceState" where
  "strategy2 env st dbPath schema voiceTime =
     (if truthy (timeColumn schema)
      then let st1 = logged st Strategy2 dbPath (strategy2Sql schema voiceTime)
           in case execQuery env ''media'' dbPath (strategy2Sql schema voiceTime) of
                Threw \<Rightarrow> (None, st1)
              | Returned voiceResult \<Rightarrow>
                  (case decodeFirstRow env voiceResult of
                     Some silkData \<Rightarrow> (Some silkData, st1)
                   | None \<Rightarrow> strategy3 env st1 dbPath schema voiceTime)
      else strategy3 env st dbPath schema voiceTime)"

definition strategy1 ::
  "voiceEnv \<Rightarrow> voiceState \<Rightarrow> string \<Rightarrow> voiceSchema \<Rightarrow> int \<Rightarrow> string list
   \<Rightarrow> buffer option \<times> voiceState" where
  "strategy1 env st dbPath schema voiceTime candidates =
     (if hasIdentityColumns schema
      then let st1 = logged st IdentityIds dbPath (identityIdsSql schema candidates)
           in case execQuery env ''media'' dbPath (identityIdsSql schema candidates) of
                Threw \<Rightarrow> (None, st1)
              | Returned name2IdResult \<Rightarrow>
                  if hasRows name2IdResult
                  then let chatNameIds = map (\<lambda>r. field r ''rowid'') (the (q_rows name2IdResult));
                           st2 = logged st1 Strategy1 dbPath
                                   (strategy1Sql schema chatNameIds voiceTime)
                       in case execQuery env ''media'' dbPath
                                 (strategy1Sql schema chatNameIds voiceTime) of
                            Threw \<Rightarrow> (None, st2)
                          | Returned voiceResult \<Rightarrow>
                              (case decodeFirstRow env voiceResult of
                                 Some silkData \<Rightarrow> (Some silkData, st2)
                               | None \<Rightarrow> strategy2 env st2 dbPath schema voiceTime)
                  else strategy2 env st1 dbPath schema voiceTime
      else strategy2 env st dbPath schema voiceTime)"

subsection \<open>The loop over the media databases\<close>

fun lookupMediaDbs ::
  "voiceEnv \<Rightarrow> voiceState \<Rightarrow> string list \<Rightarrow> int \<Rightarrow> string list \<Rightarrow> buffer option \<times> voiceState" where
  "lookupMediaDbs env st [] voiceTime candidates = (None, st)"
| "lookupMediaDbs env st (dbPath # rest) voiceTime candidates =
     (case discoverSchema env st dbPath of
        (None, st1) \<Rightarrow> lookupMediaDbs env st1 rest voiceTime candidates
      | (Some schema, st1) \<Rightarrow>
          (case strategy1 env st1 dbPath schema voiceTime candidates of
             (Some silkData, st2) \<Rightarrow> (Some silkData, st2)
           | (None, st2) \<Rightarrow> lookupMediaDbs env st2 rest voiceTime candidates))"

definition getVoiceDataFromMediaDb ::
  "voiceEnv \<Rightarrow> voiceState \<Rightarrow> int \<Rightarrow> string list \<Rightarrow> buffer option \<times> voiceState" where
  "getVoiceDataFromMediaDb env st voiceTime candidates =
     (case mediaDbsCache st of
        Some mediaDbFiles \<Rightarrow> lookupMediaDbs env st mediaDbFiles voiceTime candidates
      | None \<Rightarrow>
          let mediaDbsResult = listMediaDbs env;
              files = (if l_success mediaDbsResult \<and> l_data mediaDbsResult \<noteq> None
                       then the (l_data mediaDbsResult) else []);
              files = (if length files = 0 then findMediaDbsManually env else files)
          in if length files = 0 then (None, st)
             else lookupMediaDbs env (st\<lparr> mediaDbsCache := Some files \<rparr>) files voiceTime candidates)"

subsection \<open>What each strategy finds\<close>

text \<open>
  The payload a strategy yields in a media database, read off the query service alone:
  the decoded first row of the strategy's query, and nothing when the schema lacks the
  columns the strategy needs, when the query throws or returns no row, or when the row
  does not decode.
\<close>

definition answer :: "voiceEnv \<Rightarrow> string \<Rightarrow> string \<Rightarrow> buffer option" where
  "answer env dbPath sql =
     (case execQuery env ''media'' dbPath sql of
        Threw \<Rightarrow> None
      | Returned voiceResult \<Rightarrow> decodeFirstRow env voiceResult)"

definition identityIds :: "voiceEnv \<Rightarrow> string \<Rightarrow> voiceSchema \<Rightarrow> string list \<Rightarrow> jsValue list option" where
  "identityIds env dbPath schema candidates =
     (if hasIdentityColumns schema
      then case execQuery env ''media'' dbPath (identityIdsSql schema candidates) of
             Threw \<Rightarrow> None
           | Returned name2IdResult \<Rightarrow>
               if hasRows name2IdResult
               then Some (map (\<lambda>r. field r ''rowid'') (the (q_rows name2IdResult)))
               else None
      else None)"

definition identityPayload ::
  "voiceEnv \<Rightarrow> string \<Rightarrow> voiceSchema \<Rightarrow> int \<Rightarrow> string list \<Rightarrow> buffer option" where
  "identityPayload env dbPath schema voiceTime candidates =
     (case identityIds env dbPath schema candidates of
        None \<Rightarrow> None
      | Some chatNameIds \<Rightarrow> answer env dbPath (strategy1Sql schema chatNameIds voiceTime))"

definition exactTimePayload :: "voiceEnv \<Rightarrow> string \<Rightarrow> voiceSchema \<Rightarrow> int \<Rightarrow> buffer option" where
  "exactTimePayload env dbPath schema voiceTime =
     (if truthy (timeColumn schema) then answer env dbPath (strategy2Sql schema voiceTime) else None)"

definition timeWindowPayload :: "voiceEnv \<Rightarrow> string \<Rightarrow> voiceSchema \<Rightarrow> int \<Rightarrow> buffer option" where
  "timeWindowPayload env dbPath schema voiceTime =
     (if truthy (timeColumn schema) then answer env dbPath (strategy3Sql schema voiceTime) else None)"

definition neverThrows :: "voiceEnv \<Rightarrow> bool" where
  "neverThrows env = (\<forall>kind dbPath sql. execQuery env kind dbPath sql \<noteq> Threw)"

text \<open>The queries sent between two states, and the first payload found of three.\<close>

definition queriesSince :: "voiceState \<Rightarrow> voiceState \<Rightarrow> (lookupStep \<times> string \<times> string) list" where
  "queriesSince st st' = drop (length (queryLog st)) (queryLog st')"

definition firstFound :: "buffer option \<Rightarrow> buffer option \<Rightarrow> buffer option \<Rightarrow> buffer option" where
  "firstFound p1 p2 p3 =
     (case p1 of Some b \<Rightarrow> Some b
      | None \<Rightarrow> (case p2 of Some b \<Rightarrow> Some b | None \<Rightarrow> p3))"

text \<open>
  Sample data: a schema with all columns and two query services. In the first only the
  time-window query finds a row; in the second the identity-lookup table knows no
  candidate and the exact-time query finds a row.
\<close>

definition sampleSchema :: voiceSchema where
  "sampleSchema = \<lparr> voiceTable = ''VoiceInfo'', dataColumn = ''voice_data'',
     chatNameIdColumn = Some ''chat_name_id'', timeColumn = Some ''create_time'',
     name2IdTable = Str ''Name2Id'' \<rparr>"

definition noRows :: queryOutcome where
  "noRows = Returned \<lparr> q_success = True, q_rows = Some [] \<rparr>"

definition oneRow :: "row \<Rightarrow> queryOutcome" where
  "oneRow r = Returned \<lparr> q_success = True, q_rows = Some [r] \<rparr>"

definition windowOnlyEnv :: voiceEnv where
  "windowOnlyEnv = \<lparr>
     execQuery = (\<lambda>kind dbPath sql.
        if sql = identityIdsSql sampleSchema [''wxid_a'']
        then oneRow [(''user_name'', Str ''wxid_a''), (''rowid'', Num 7)]
        else if sql = strategy3Sql sampleSchema 100
        then oneRow [(''data'', Buf [1, 2, 3])]
        else noRows),
     listMediaDbs = \<lparr> l_success = True, l_data = Some [''media_0.db''] \<rparr>,
     findMediaDbsManually = [],
     fromHex = (\<lambda>s. []),
     fromBase64 = (\<lambda>s. []) \<rparr>"

definition exactTimeEnv :: voiceEnv where
  "exactTimeEnv = \<lparr>
     execQuery = (\<lambda>kind dbPath sql.
        if sql = strategy2Sql sampleSchema 100
        then oneRow [(''data'', Buf [4, 5])]
        else if sql = strategy3Sql sampleSchema 100
        then oneRow [(''data'', Buf [1, 2, 3])]
        else noRows),
     listMediaDbs = \<lparr> l_success = True, l_data = Some [''media_0.db''] \<rparr>,
     findMediaDbsManually = [],
     fromHex = (\<lambda>s. []),
     fromBase64 = (\<lambda>s. []) \<rparr>"

definition emptyVoiceState :: voiceState where
  "emptyVoiceState = \<lparr> mediaDbsCache = None, mediaDbSchemaCache = Map.empty, queryLog = [] \<rparr>"

text \<open>
  Sample data: a query service over one media database whose identity-lookup table knows
  the candidate, whose row for that identity and the exact time holds an empty buffer, and
  whose row for the exact time alone holds two bytes; and the state of the lookup once
  the list of media databases and the schema are cached.
\<close>

definition emptyPayloadEnv :: voiceEnv where
  "emptyPayloadEnv = \<lparr>
     execQuery = (\<lambda>kind dbPath sql.
        if sql = voiceTablesSql then oneRow [(''name'', Str ''VoiceInfo'')]
        else if sql = tableInfoSql ''VoiceInfo''
        then Returned \<lparr> q_success = True,
               q_rows = Some [[(''name'', Str ''chat_name_id'')], [(''name'', Str ''create_time'')],
                              [(''name'', Str ''voice_data'')]] \<rparr>
        else if sql = name2IdTablesSql then oneRow [(''name'', Str ''Name2Id'')]
        else if sql = identityIdsSql sampleSchema [''wxid_a'']
        then oneRow [(''user_name'', Str ''wxid_a''), (''rowid'', Num 7)]
        else if sql = strategy1Sql sampleSchema [Num 7] 100
        then oneRow [(''data'', Buf [])]
        else if sql = strategy2Sql sampleSchema 100
        then oneRow [(''data'', Buf [4, 5])]
        else noRows),
     listMediaDbs = \<lparr> l_success = True, l_data = Some [''media_0.db''] \<rparr>,
     findMediaDbsManually = [],
     fromHex = (\<lambda>s. []),
     fromBase64 = (\<lambda>s. []) \<rparr>"

definition cachedVoiceState :: voiceState where
  "cachedVoiceState = \<lparr> mediaDbsCache = Some [''media_0.db''],
     mediaDbSchemaCache = [''media_0.db'' \<mapsto> sampleSchema], queryLog = [] \<rparr>"

section \<open>The configured key on its way to decryptDatAuto\<close>

text \<open>
  \<open>aesKeyRaw?.trim() ?? ''\<close>: a missing configuration value reads as the empty text. An
  empty text gives null; any other text goes through asciiKey16, which throws when it has
  fewer than 16 characters.
\<close>

definition resolveAesKey :: "string option \<Rightarrow> error + buffer option" where
  "resolveAesKey aesKeyRaw =
     (let trimmed = (case aesKeyRaw of None \<Rightarrow> [] | Some raw \<Rightarrow> jsTrim raw)
      in if trimmed = [] then Inr None
         else case asciiKey16 trimmed of
                Inl e \<Rightarrow> Inl e
              | Inr key \<Rightarrow> Inr (Some key))"

text \<open>
  The two statements of decryptImageInternal that lead to the decryption: the configured
  key is resolved, then decryptDatAuto runs with the result. An exception of either ends
  the request with its message as the error.
\<close>

definition decryptWithConfiguredKey ::
  "cipher \<Rightarrow> filesystem \<Rightarrow> string \<Rightarrow> int \<Rightarrow> string option \<Rightarrow> error + buffer" where
  "decryptWithConfiguredKey cipher fs datPath xorKey aesKeyRaw =
     (case resolveAesKey aesKeyRaw of
        Inl e \<Rightarrow> Inl e
      | Inr aesKey \<Rightarrow> decryptDatAuto cipher fs datPath xorKey aesKey)"

text \<open>
  Sample data: a stand-in for the block cipher that XORs a 16-byte block with the key, so
  that the output shows which key was used; and two containers of the same content, a
  five-byte AES payload padded to one block, two raw bytes and two XOR bytes. The block of
  the V1 container is encrypted under the built-in key, the block of the V2 container
  under the key \<open>0123456789abcdef\<close>.
\<close>

definition xorCipher :: cipher where
  "xorCipher key data = map (\<lambda>(d, k). d XOR k) (zip data key)"

definition sampleSizes :: buffer where
  "sampleSizes = [5, 0, 0, 0, 2, 0, 0, 0, 0]"

definition sampleTail :: buffer where
  "sampleTail = [0x10, 0x11, 0xAC, 0xAD]"

definition sampleV1Container :: buffer where
  "sampleV1Container = signatureV1 @ sampleSizes
     @ [0xEA, 0x36, 0x2D, 0x23, 0x3F, 0x3B, 0x33, 0x3F, 0x32, 0x3E, 0x6F, 0x3E, 0x3D, 0x3E, 0x6E, 0x6D]
     @ sampleTail"

definition sampleV2Container :: buffer where
  "sampleV2Container = signatureV2 @ sampleSizes
     @ [0xB9, 0x61, 0x7C, 0x74, 0x39, 0x3E, 0x3D, 0x3C, 0x33, 0x32, 0x6A, 0x69, 0x68, 0x6F, 0x6E, 0x6D]
     @ sampleTail"

definition samplePlain :: buffer where
  "samplePlain = [0x89, 0x50, 0x4E, 0x47, 0x0D, 0x10, 0x11, 0xFF, 0xFE]"

section \<open>In-flight maps: decryptImage and getVoiceTranscript\<close>

text \<open>
  JavaScript runs a function from one \<open>await\<close> to the next without interruption, so
  an async method is a sequence of atomic sections and concurrent calls are
  interleavings of sections. A promise is named by the number of the task that settles
  it; a promise settles once, so two calls that resolve with the same task's promise
  receive the same result.
\<close>

subsection \<open>decryptImage\<close>

record decryptPayload =
  p_sessionId :: "string option"
  p_imageMd5 :: "string option"
  p_imageDatName :: "string option"
  p_force :: "bool option"

text \<open>
  What a call of decryptImage resolves with: the error for a missing identifier, the
  cached file, or the result of a task (a run of decryptImageInternal).
\<close>

datatype decryptOutcome = MissingIdentifier | CacheHit string | TaskResult nat

text \<open>
  The service's state: the resolved-path cache, the in-flight map \<open>pending\<close>, and three
  records of the calls: the runs of decryptImageInternal started so far with their cache
  keys, oldest first (the number of a task is its position); the calls suspended at
  \<open>await task\<close> inside the \<open>try\<close>, each with its cache key; and what each call resolves
  with, in the order the calls passed the first \<open>await\<close> (the number of a call is its
  position).
\<close>

record decryptService = imageState +
  pending :: "string \<rightharpoonup> nat"
  started :: "(nat \<times> string) list"
  awaiting :: "nat \<rightharpoonup> string"
  returned :: "(string option \<times> decryptOutcome) list"

definition isImageFile :: "imageEnv \<Rightarrow> string \<Rightarrow> bool" where
  "isImageFile env filePath =
     (let ext = toLowerCase (extname env filePath)
      in ext = ''.gif'' \<or> ext = ''.png'' \<or> ext = ''.jpg'' \<or> ext = ''.jpeg'' \<or> ext = ''.webp'')"

definition decryptCacheKey :: "decryptPayload \<Rightarrow> string option" where
  "decryptCacheKey payload =
     (if truthy (p_imageMd5 payload) then p_imageMd5 payload else p_imageDatName payload)"

definition servedFromCache :: "imageEnv \<Rightarrow> 'a decryptService_scheme \<Rightarrow> decryptPayload \<Rightarrow> bool" where
  "servedFromCache env st payload =
     (p_force payload \<noteq> Some True
      \<and> truthy (resolvedCache st (the (decryptCacheKey payload)))
      \<and> existsSync env (the (resolvedCache st (the (decryptCacheKey payload))))
      \<and> isImageFile env (the (resolvedCache st (the (decryptCacheKey payload)))))"

text \<open>
  The section of decryptImage from the return of \<open>await this.ensureCacheIndexed()\<close> to
  its \<open>return\<close> or to \<open>await task\<close>.
\<close>

definition decryptImageEnter ::
  "imageEnv \<Rightarrow> decryptService \<Rightarrow> decryptPayload \<Rightarrow> decryptService" where
  "decryptImageEnter env st payload =
     (let cacheKey = decryptCacheKey payload
      in if \<not> truthy cacheKey
         then st\<lparr> returned := returned st @ [(None, MissingIdentifier)] \<rparr>
         else if servedFromCache env st payload
         then st\<lparr> returned := returned st @ [(cacheKey, CacheHit (the (resolvedCache st (the cacheKey))))] \<rparr>
         else
           let st1 = (if p_force payload \<noteq> Some True
                         \<and> truthy (resolvedCache st (the cacheKey))
                         \<and> \<not> isImageFile env (the (resolvedCache st (the cacheKey)))
                      then st\<lparr> resolvedCache := (resolvedCache st)(the cacheKey := None) \<rparr>
                      else st)
           in case pending st1 (the cacheKey) of
                Some task \<Rightarrow> st1\<lparr> returned := returned st1 @ [(cacheKey, TaskResult task)] \<rparr>
              | None \<Rightarrow>
                  st1\<lparr> pending := (pending st1)(the cacheKey \<mapsto> length (started st1)),
                       started := started st1 @ [(length (started st1), the cacheKey)],
                       awaiting := (awaiting st1)(length (returned st1) \<mapsto> the cacheKey),
                       returned := returned st1 @ [(cacheKey, TaskResult (length (started st1)))] \<rparr>)"

text \<open>The \<open>finally\<close> block, run when the call that started the task resumes after it.\<close>

definition decryptImageFinally :: "decryptService \<Rightarrow> nat \<Rightarrow> decryptService" where
  "decryptImageFinally st call =
     (case awaiting st call of
        None \<Rightarrow> st
      | Some cacheKey \<Rightarrow>
          st\<lparr> pending := (pending st)(cacheKey := None),
              awaiting := (awaiting st)(call := None) \<rparr>)"

text \<open>
  The events of the service: a call of decryptImage passes its first \<open>await\<close>; the task
  of a call has settled and the call resumes; a running task writes the resolved-path
  cache. The events of the transcription bridge further down are requests and
  completions of tasks. \<open>clearCache\<close> and \<open>clearCaches\<close>, which empty the in-flight
  maps, are not among the events of either service.
\<close>

datatype imageEvent =
    RequestImage decryptPayload
  | TaskSettled nat
  | CacheWritten "string \<rightharpoonup> string"

fun imageStep :: "imageEnv \<Rightarrow> decryptService \<Rightarrow> imageEvent \<Rightarrow> decryptService" where
  "imageStep env st (RequestImage payload) = decryptImageEnter env st payload"
| "imageStep env st (TaskSettled call) = decryptImageFinally st call"
| "imageStep env st (CacheWritten cache) = st\<lparr> resolvedCache := cache \<rparr>"

definition runImage :: "imageEnv \<Rightarrow> imageEvent list \<Rightarrow> decryptService \<Rightarrow> decryptService" where
  "runImage env events st = foldl (imageStep env) st events"

definition newDecryptService :: decryptService where
  "newDecryptService = \<lparr> resolvedCache = Map.empty, walks = [], pending = Map.empty,
     started = [], awaiting = Map.empty, returned = [] \<rparr>"

definition startsFor :: "string \<Rightarrow> (nat \<times> string) list \<Rightarrow> nat list" where
  "startsFor k log = map fst (filter (\<lambda>(task, key). key = k) log)"


text \<open>A call starts a task when it has a cache key, is not served from the cache and finds
  no entry for its key in the in-flight map.\<close>

definition startsTask :: "imageEnv \<Rightarrow> decryptService \<Rightarrow> decryptPayload \<Rightarrow> bool" where
  "startsTask env st payload =
     (truthy (decryptCacheKey payload) \<and> \<not> servedFromCache env st payload
      \<and> pending st (the (decryptCacheKey payload)) = None)"

definition inFlightInvariant :: "decryptService \<Rightarrow> bool" where
  "inFlightInvariant st =
     ((\<forall>call key. awaiting st call = Some key \<longrightarrow>
          call < length (returned st) \<and> pending st key \<noteq> None)
      \<and> (\<forall>call call' key. awaiting st call = Some key \<longrightarrow> awaiting st call' = Some key
            \<longrightarrow> call = call'))"

text \<open>
  The window in which a key is in flight: task \<open>t\<close> is registered for key \<open>k\<close>, call
  \<open>c0\<close> started it and has not resumed, the tasks started for \<open>k\<close> are \<open>S\<close>, and every
  call for \<open>k\<close> from position \<open>n\<close> on resolves with task \<open>t\<close> or with a cached file.
\<close>

definition inWindow ::
  "string \<Rightarrow> nat \<Rightarrow> nat \<Rightarrow> nat \<Rightarrow> nat list \<Rightarrow> decryptService \<Rightarrow> bool" where
  "inWindow k t c0 n S st =
     (inFlightInvariant st \<and> pending st k = Some t \<and> awaiting st c0 = Some k
      \<and> startsFor k (started st) = S \<and> n \<le> length (returned st)
      \<and> (\<forall>(key, out) \<in> set (drop n (returned st)).
            key = Some k \<longrightarrow> out = TaskResult t \<or> (\<exists>p. out = CacheHit p)))"

subsection \<open>getVoiceTranscript\<close>

datatype transcriptOutcome = NoTimestamp | CachedTranscript string | TranscriptTask nat

text \<open>
  A JavaScript \<open>Map\<close> keeps its keys in insertion order; the transcript cache evicts its
  oldest key, so it is a list of pairs, oldest first.
\<close>

fun mapSet :: "(string \<times> string) list \<Rightarrow> string \<Rightarrow> string \<Rightarrow> (string \<times> string) list" where
  "mapSet [] k v = [(k, v)]"
| "mapSet ((k', v') # rest) k v = (if k' = k then (k, v) # rest else (k', v') # mapSet rest k v)"

definition voiceCacheMaxEntries :: nat where
  "voiceCacheMaxEntries = 50"

definition cacheVoiceTranscript ::
  "(string \<times> string) list \<Rightarrow> string \<Rightarrow> string \<Rightarrow> (string \<times> string) list" where
  "cacheVoiceTranscript cache cacheKey transcript =
     (let cache1 = mapSet cache cacheKey transcript
      in if length cache1 > voiceCacheMaxEntries
         then (case cache1 of
                 [] \<Rightarrow> cache1
               | (oldestKey, v) # rest \<Rightarrow> if oldestKey \<noteq> [] then rest else cache1)
         else cache1)"

text \<open>
  The cache key holds the message time as the template literal prints it: in decimal,
  for a time that is a safe integer.
\<close>

definition getVoiceCacheKey :: "string \<Rightarrow> string \<Rightarrow> int option \<Rightarrow> string" where
  "getVoiceCacheKey sessionId msgId time =
     (if time \<noteq> None \<and> time \<noteq> Some 0
      then sessionId @ ''_'' @ showInt (the time)
      else sessionId @ ''_'' @ msgId)"

text \<open>
  The state of the transcription bridge: the transcript cache, the in-flight map, the
  tasks started with their cache keys (oldest first, a task's number is its position),
  the tasks still running, and what each call resolves with.
\<close>

record transcriptService =
  voiceTranscriptCache :: "(string \<times> string) list"
  voiceTranscriptPending :: "string \<rightharpoonup> nat"
  transcriptStarted :: "(nat \<times> string) list"
  transcriptRunning :: "nat \<rightharpoonup> string"
  transcriptReturned :: "(string option \<times> transcriptOutcome) list"

text \<open>
  The task of a transcription is an async function called on the spot, so its first
  section runs inside the call of getVoiceTranscript, before the in-flight map is set.
  That section reads the WAV cache and, on a miss, calls getVoiceCacheDir and \<open>join\<close>,
  which can throw; if nothing throws, the task reaches an \<open>await\<close> (of getVoiceData or
  of transcribeWavBuffer) and is suspended. If the first section throws, the \<open>catch\<close>
  and \<open>finally\<close> blocks of the task run at once: the task has completed, with a failure,
  and its \<open>finally\<close> has deleted the key before the call sets it.
\<close>

datatype firstSection = ReachesAwait | ThrowsBeforeAwait

text \<open>
  The section of getVoiceTranscript from the point where the message time is known
  (given by the caller or looked up) to its \<open>return\<close>.
\<close>

definition getVoiceTranscriptEnter ::
  "transcriptService \<Rightarrow> string \<Rightarrow> string \<Rightarrow> int option \<Rightarrow> firstSection \<Rightarrow> transcriptService" where
  "getVoiceTranscriptEnter st sessionId msgId msgCreateTime first =
     (if msgCreateTime = None \<or> msgCreateTime = Some 0
      then st\<lparr> transcriptReturned := transcriptReturned st @ [(None, NoTimestamp)] \<rparr>
      else
        let cacheKey = getVoiceCacheKey sessionId msgId msgCreateTime;
            cached = map_of (voiceTranscriptCache st) cacheKey
        in if truthy cached
           then st\<lparr> transcriptReturned := transcriptReturned st
                       @ [(Some cacheKey, CachedTranscript (the cached))] \<rparr>
           else case voiceTranscriptPending st cacheKey of
                  Some task \<Rightarrow>
                    st\<lparr> transcriptReturned := transcriptReturned st
                          @ [(Some cacheKey, TranscriptTask task)] \<rparr>
                | None \<Rightarrow>
                    let task = length (transcriptStarted st);
                        st1 = st\<lparr> transcriptStarted := transcriptStarted st @ [(task, cacheKey)] \<rparr>;
                        st2 = (case first of
                                 ReachesAwait \<Rightarrow>
                                   st1\<lparr> transcriptRunning := (transcriptRunning st1)(task \<mapsto> cacheKey) \<rparr>
                               | ThrowsBeforeAwait \<Rightarrow>
                                   st1\<lparr> voiceTranscriptPending :=
                                          (voiceTranscriptPending st1)(cacheKey := None) \<rparr>)
                    in st2\<lparr> voiceTranscriptPending := (voiceTranscriptPending st2)(cacheKey \<mapsto> task),
                           transcriptReturned := transcriptReturned st2
                             @ [(Some cacheKey, TranscriptTask task)] \<rparr>)"

text \<open>
  The last section of a task that was suspended: a successful result with a transcript is
  cached, and the \<open>finally\<close> block deletes the key from the in-flight map. The result is
  the text on success and \<open>None\<close> on failure. A task that completed in its first section
  is not running and has no later section.
\<close>

definition transcriptTaskDone ::
  "transcriptService \<Rightarrow> nat \<Rightarrow> string option \<Rightarrow> transcriptService" where
  "transcriptTaskDone st task result =
     (case transcriptRunning st task of
        None \<Rightarrow> st
      | Some cacheKey \<Rightarrow>
          st\<lparr> voiceTranscriptCache :=
                (if truthy result
                 then cacheVoiceTranscript (voiceTranscriptCache st) cacheKey (the result)
                 else voiceTranscriptCache st),
              voiceTranscriptPending := (voiceTranscriptPending st)(cacheKey := None),
              transcriptRunning := (transcriptRunning st)(task := None) \<rparr>)"

datatype transcriptEvent =
    RequestTranscript string string "int option" firstSection
  | TranscriptDone nat "string option"

fun transcriptStep :: "transcriptService \<Rightarrow> transcriptEvent \<Rightarrow> transcriptService" where
  "transcriptStep st (RequestTranscript sessionId msgId msgCreateTime first) =
     getVoiceTranscriptEnter st sessionId msgId msgCreateTime first"
| "transcriptStep st (TranscriptDone task result) = transcriptTaskDone st task result"

definition runTranscript :: "transcriptEvent list \<Rightarrow> transcriptService \<Rightarrow> transcriptService" where
  "runTranscript events st = foldl transcriptStep st events"

definition newTranscriptService :: transcriptService where
  "newTranscriptService = \<lparr> voiceTranscriptCache = [], voiceTranscriptPending = Map.empty,
     transcriptStarted = [], transcriptRunning = Map.empty, transcriptReturned = [] \<rparr>"

definition isDone :: "nat \<Rightarrow> transcriptEvent \<Rightarrow> bool" where
  "isDone task e = (case e of TranscriptDone task' result \<Rightarrow> task' = task | _ \<Rightarrow> False)"

definition transcriptInvariant :: "transcriptService \<Rightarrow> bool" where
  "transcriptInvariant st =
     (\<forall>task key. transcriptRunning st task = Some key \<longrightarrow>
        task < length (transcriptStarted st) \<and> voiceTranscriptPending st key = Some task)"

definition transcriptWindow ::
  "string \<Rightarrow> nat \<Rightarrow> nat \<Rightarrow> nat list \<Rightarrow> transcriptService \<Rightarrow> bool" where
  "transcriptWindow k t n S st =
     (transcriptInvariant st \<and> voiceTranscriptPending st k = Some t
      \<and> transcriptRunning st t = Some k
      \<and> startsFor k (transcriptStarted st) = S \<and> n \<le> length (transcriptReturned st)
      \<and> (\<forall>(key, out) \<in> set (drop n (transcriptReturned st)).
            key = Some k \<longrightarrow> out = TranscriptTask t \<or> (\<exists>text. out = CachedTranscript text)))"


text \<open>A call starts a transcription when the message time is known, the transcript is not
  cached and the key is not in flight. The invariants and windows below are the ones of
  decryptImage, for the transcription bridge.\<close>

definition startsTranscription :: "transcriptService \<Rightarrow> string \<Rightarrow> string \<Rightarrow> int option \<Rightarrow> bool" where
  "startsTranscription st sessionId msgId time =
     (time \<noteq> None \<and> time \<noteq> Some 0
      \<and> \<not> truthy (map_of (voiceTranscriptCache st) (getVoiceCacheKey sessionId msgId time))
      \<and> voiceTranscriptPending st (getVoiceCacheKey sessionId msgId time) = None)"

text \<open>Sample data: three image requests, two of them for the same hash, and two
  transcription requests for the same session and time.\<close>

definition samplePayload :: "string \<Rightarrow> bool option \<Rightarrow> decryptPayload" where
  "samplePayload md5 forced = \<lparr> p_sessionId = None, p_imageMd5 = Some md5, p_imageDatName = None,
     p_force = forced \<rparr>"

definition sampleImageEvents :: "imageEvent list" where
  "sampleImageEvents =
     [RequestImage (samplePayload ''0123456789abcdef'' None),
      RequestImage (samplePayload ''0123456789abcdef'' (Some True)),
      RequestImage (samplePayload ''fedcba9876543210'' None)]"

definition sampleTranscriptEvents :: "transcriptEvent list" where
  "sampleTranscriptEvents =
     [RequestTranscript ''s'' ''7'' (Some 100) ReachesAwait,
      RequestTranscript ''s'' ''8'' (Some 100) ReachesAwait]"

text \<open>
  Sample data: what follows a transcription request whose task threw in its first
  section: a completion event for that task, and two more requests for the same key.
\<close>

definition sampleLaterEvents :: "transcriptEvent list" where
  "sampleLaterEvents =
     [TranscriptDone 0 (Some ''hello''),
      RequestTranscript ''s'' ''7'' (Some 100) ReachesAwait,
      RequestTranscript ''s'' ''8'' (Some 100) ThrowsBeforeAwait]"

text \<open>
  A key stuck in the in-flight map: it is registered with task \<open>t\<close>, no running task
  belongs to it, no transcript is cached for it, the tasks started for it are \<open>S\<close>, and
  every call for it from position \<open>n\<close> on resolves with the promise of task \<open>t\<close>.
\<close>

definition stuckEntry :: "string \<Rightarrow> nat \<Rightarrow> nat \<Rightarrow> nat list \<Rightarrow> transcriptService \<Rightarrow> bool" where
  "stuckEntry k t n S st =
     (voiceTranscriptPending st k = Some t
      \<and> (\<forall>task. transcriptRunning st task \<noteq> Some k)
      \<and> k \<notin> fst ` set (voiceTranscriptCache st)
      \<and> startsFor k (transcriptStarted st) = S \<and> n \<le> length (transcriptReturned st)
      \<and> (\<forall>(key, out) \<in> set (drop n (transcriptReturned st)).
            key = Some k \<longrightarrow> out = TranscriptTask t))"

text \<open>Only transcripts that are not empty are cached.\<close>

definition cachedTextsInvariant :: "transcriptService \<Rightarrow> bool" where
  "cachedTextsInvariant st = (\<forall>(k, v) \<in> set (voiceTranscriptCache st). v \<noteq> [])"

text \<open>
  Sample data: the resolved-path cache holds a thumbnail for a hash, a forced request
  for that hash starts a task, and a request that is not forced follows.
\<close>

definition sampleThumbCache :: "string \<rightharpoonup> string" where
  "sampleThumbCache = [''0123456789abcdef'' \<mapsto> ''/cache/0123456789abcdef_t.jpg'']"

definition sampleForcedEvents :: "imageEvent list" where
  "sampleForcedEvents =
     [CacheWritten sampleThumbCache,
      RequestImage (samplePayload ''0123456789abcdef'' (Some True)),
      RequestImage (samplePayload ''0123456789abcdef'' None)]"

section \<open>Properties of the image container decryptor\<close>

subsection \<open>Version detection\<close>

lemma compareBytesLoop_iff:
  "length a = length b \<Longrightarrow> compareBytesLoop a b i \<longleftrightarrow> drop i a = drop i b"
proof (induction a b i rule: compareBytesLoop.induct)
  case (1 a b i)
  show ?case
  proof (cases "i < length a")
    case True
    then have ib: "i < length b" using "1.prems" by simp
    have da: "drop i a = a ! i # drop (i + 1) a" using True by (simp add: Cons_nth_drop_Suc)
    have db: "drop i b = b ! i # drop (i + 1) b" using ib by (simp add: Cons_nth_drop_Suc)
    show ?thesis
    proof (cases "a ! i = b ! i")
      case True
      with \<open>i < length a\<close> "1.IH" "1.prems" da db show ?thesis
        by (subst compareBytesLoop.simps) simp
    next
      case False
      with \<open>i < length a\<close> da db show ?thesis
        by (subst compareBytesLoop.simps) simp
    qed
  next
    case False
    with "1.prems" show ?thesis by (subst compareBytesLoop.simps) simp
  qed
qed

lemma compareBytes_iff: "compareBytes a b \<longleftrightarrow> a = b"
  using compareBytesLoop_iff [of a b 0] by (auto simp: compareBytes_def)

lemma subarray_0_take: "0 \<le> n \<Longrightarrow> subarray buf 0 n = take (nat n) buf"
  by (simp add: subarray_def relativeIndex_def Let_def min_def)

text \<open>
  Claim C4. For every container file, the version detector answers 1 exactly when the
  first six bytes are 07 08 56 31 08 07, 2 exactly when they are 07 08 56 32 08 07, and 0
  in every other case; a file shorter than six bytes has no six-byte prefix and gets 0.
\<close>

theorem getDatVersion_signature:
  "fs inputPath = Some bytes \<Longrightarrow>
   getDatVersion fs inputPath =
     Inr (if take 6 bytes = signatureV1 then 1
          else if take 6 bytes = signatureV2 then 2 else 0)"
proof -
  assume a: "fs inputPath = Some bytes"
  have l1: "length signatureV1 = 6" and l2: "length signatureV2 = 6"
    by (simp_all add: signatureV1_def signatureV2_def)
  have s: "subarray bytes 0 6 = take 6 bytes"
    using subarray_0_take [of 6 bytes] by simp
  show ?thesis
  proof (cases "length bytes < 6")
    case True
    then have "take 6 bytes \<noteq> signatureV1" "take 6 bytes \<noteq> signatureV2"
      using l1 l2 by (metis length_take min.absorb1 nat_less_le)+
    with True a show ?thesis by (simp add: getDatVersion_def)
  next
    case False
    with a show ?thesis
      by (simp add: getDatVersion_def compareBytes_iff s Let_def del: take_eq_Nil)
  qed
qed

theorem getDatVersion_signature_witness:
  "getDatVersion [''a.dat'' \<mapsto> [0x07, 0x08, 0x56, 0x31, 0x08, 0x07, 0xAA]] ''a.dat'' = Inr 1
   \<and> getDatVersion [''a.dat'' \<mapsto> [0x07, 0x08, 0x56, 0x32, 0x08, 0x07, 0xAA]] ''a.dat'' = Inr 2
   \<and> getDatVersion [''a.dat'' \<mapsto> [0x07, 0x08, 0x56]] ''a.dat'' = Inr 0"
  using getDatVersion_signature [of "[''a.dat'' \<mapsto> [0x07, 0x08, 0x56, 0x31, 0x08, 0x07, 0xAA]]" "''a.dat''" "[0x07, 0x08, 0x56, 0x31, 0x08, 0x07, 0xAA]"]
    getDatVersion_signature [of "[''a.dat'' \<mapsto> [0x07, 0x08, 0x56, 0x32, 0x08, 0x07, 0xAA]]" "''a.dat''" "[0x07, 0x08, 0x56, 0x32, 0x08, 0x07, 0xAA]"]
    getDatVersion_signature [of "[''a.dat'' \<mapsto> [0x07, 0x08, 0x56]]" "''a.dat''" "[0x07, 0x08, 0x56]"]
  by (simp add: signatureV1_def signatureV2_def)

subsection \<open>V0: the XOR pass is an involution\<close>

lemma xorByte_involution: "xorByte k (xorByte k d) = d"
  unfolding xorByte_def
  by (rule bit_word_eqI) (auto simp: bit_simps)

lemma xorLoop_map:
  "i \<le> length data \<Longrightarrow> length out = length data \<Longrightarrow>
   xorLoop data k out i = take i out @ map (xorByte k) (drop i data)"
proof (induction data k out i rule: xorLoop.induct)
  case (1 data k out i)
  show ?case
  proof (cases "i < length data")
    case True
    have d: "drop i data = data ! i # drop (i + 1) data"
      using True by (simp add: Cons_nth_drop_Suc)
    have t: "take (i + 1) (out[i := xorByte k (data ! i)]) = take i out @ [xorByte k (data ! i)]"
      using True "1.prems" by (simp add: take_Suc_conv_app_nth)
    have "xorLoop data k out i = xorLoop data k (out[i := xorByte k (data ! i)]) (i + 1)"
      using True by (subst xorLoop.simps) simp
    also have "\<dots> = take (i + 1) (out[i := xorByte k (data ! i)]) @ map (xorByte k) (drop (i + 1) data)"
      using True "1.prems" by (intro "1.IH") simp_all
    finally show ?thesis using d t by simp
  next
    case False
    with "1.prems" show ?thesis by (subst xorLoop.simps) simp
  qed
qed

lemma decryptDatV3_map:
  "fs p = Some data \<Longrightarrow> decryptDatV3 fs p k = Inr (map (xorByte k) data)"
  by (simp add: decryptDatV3_def xorLoop_map)

text \<open>
  Claim C5. The V0 transform XORs every byte with the key, keeps the length, and applied
  to its own output with the same key gives the input back. The key is any integer the
  service can hold; only its low eight bits reach the output.
\<close>

theorem decryptDatV3_involution:
  "fs inputPath = Some x \<Longrightarrow>
   \<exists>y. decryptDatV3 fs inputPath k = Inr y \<and> length y = length x
     \<and> decryptDatV3 (fs(outputPath \<mapsto> y)) outputPath k = Inr x"
proof -
  assume a: "fs inputPath = Some x"
  have "map (xorByte k) (map (xorByte k) x) = x"
    by (simp add: xorByte_involution comp_def)
  then show ?thesis using a by (simp add: decryptDatV3_map)
qed

theorem decryptDatV3_involution_witness:
  "\<exists>y. decryptDatV3 [''a.dat'' \<mapsto> [1, 2, 255]] ''a.dat'' 0x53 = Inr y \<and> length y = length [1, 2, 255 :: byte]
     \<and> decryptDatV3 ([''a.dat'' \<mapsto> [1, 2, 255]](''b.dat'' \<mapsto> y)) ''b.dat'' 0x53 = Inr [1, 2, 255]"
  using decryptDatV3_involution [of "[''a.dat'' \<mapsto> [1, 2, 255]]" "''a.dat''" "[1, 2, 255]" "0x53" "''b.dat''"]
  by simp

subsection \<open>PKCS7 padding removal\<close>

lemma paddingLoop_iff:
  "paddingLoop data p i \<longleftrightarrow> (\<forall>b \<in> set (drop i data). b = p)"
proof (induction data p i rule: paddingLoop.induct)
  case (1 data p i)
  show ?case
  proof (cases "i < length data")
    case True
    have d: "drop i data = data ! i # drop (i + 1) data"
      using True by (simp add: Cons_nth_drop_Suc)
    show ?thesis
    proof (cases "data ! i = p")
      case True
      with \<open>i < length data\<close> "1.IH" d show ?thesis
        by (subst paddingLoop.simps) simp
    next
      case False
      with \<open>i < length data\<close> d show ?thesis
        by (subst paddingLoop.simps) auto
    qed
  next
    case False
    then show ?thesis by (subst paddingLoop.simps) simp
  qed
qed

lemma subarray_0_diff:
  "n \<le> length data \<Longrightarrow> subarray data 0 (int (length data) - int n) = take (length data - n) data"
  using subarray_0_take [of "int (length data) - int n" data] by (simp add: nat_diff_distrib')

lemma strictRemovePadding_eq:
  "strictRemovePadding data =
     (if data = [] then Inl PaddingEmpty
      else if last data = 0 \<or> 16 < unat (last data) \<or> length data < unat (last data)
      then Inl PaddingLengthIllegal
      else if \<exists>b \<in> set (drop (length data - unat (last data)) data). b \<noteq> last data
      then Inl PaddingContentIllegal
      else Inr (take (length data - unat (last data)) data))"
proof (cases "data = []")
  case True
  then show ?thesis by (simp add: strictRemovePadding_def)
next
  case False
  then have l: "data ! (length data - 1) = last data"
    by (simp add: last_conv_nth)
  show ?thesis
  proof (cases "last data = 0 \<or> 16 < unat (last data) \<or> length data < unat (last data)")
    case True
    with False l show ?thesis
      unfolding strictRemovePadding_def Let_def by auto
  next
    case ok: False
    then have "unat (last data) \<le> length data" by simp
    then have s: "subarray data 0 (int (length data) - int (unat (last data)))
        = take (length data - unat (last data)) data"
      by (rule subarray_0_diff)
    from False l ok show ?thesis
      unfolding strictRemovePadding_def Let_def s [symmetric]
      by (auto simp: paddingLoop_iff)
  qed
qed

text \<open>
  Claim C3. Padding removal throws exactly when the buffer is empty, or its final byte is
  0, exceeds 16 or exceeds the buffer length, or one of the last paddingLength bytes
  differs from paddingLength; otherwise it returns the input without its last
  paddingLength bytes. A buffer ending in five bytes 5 loses exactly those five bytes.
\<close>

theorem strictRemovePadding_spec:
  "(isl (strictRemovePadding data) \<longleftrightarrow>
      (data = [] \<or> last data = 0 \<or> 16 < unat (last data) \<or> length data < unat (last data)
       \<or> (\<exists>b \<in> set (drop (length data - unat (last data)) data). b \<noteq> last data)))
   \<and> (\<not> isl (strictRemovePadding data) \<longrightarrow>
        strictRemovePadding data = Inr (take (length data - unat (last data)) data)
        \<and> length (projr (strictRemovePadding data)) + unat (last data) = length data)
   \<and> strictRemovePadding (xs @ replicate 5 5) = Inr xs"
  by (auto simp: strictRemovePadding_eq)

theorem strictRemovePadding_spec_witness:
  "\<not> isl (strictRemovePadding [0x41, 0x42, 3, 3, 3])
   \<and> strictRemovePadding [0x41, 0x42, 3, 3, 3] = Inr [0x41, 0x42]
   \<and> isl (strictRemovePadding [0x41, 0x42, 3, 2, 3])
   \<and> strictRemovePadding ([9, 8] @ replicate 5 5) = Inr [9, 8]"
  using strictRemovePadding_spec [of "[0x41, 0x42, 3, 3, 3]" "[9, 8]"]
    strictRemovePadding_spec [of "[0x41, 0x42, 3, 2, 3]" "[9, 8]"]
  by simp


subsection \<open>V1 and V2: the AES region\<close>

lemma subarray_take_drop:
  "0 \<le> a \<Longrightarrow> 0 \<le> b \<Longrightarrow> subarray buf a b = take (nat b - nat a) (drop (nat a) buf)"
  by (auto simp: subarray_def relativeIndex_def Let_def min_def)

lemma subarrayFrom_drop: "0 \<le> a \<Longrightarrow> subarrayFrom buf a = drop (nat a) buf"
  by (auto simp: subarrayFrom_def subarray_def relativeIndex_def Let_def min_def)

lemma alignedAesSize_nonneg:
  "0 \<le> aesSize \<Longrightarrow> alignedAesSize aesSize = aesSize + (16 - aesSize mod 16)"
  by (simp add: alignedAesSize_def jsRem_def Let_def sgn_if)

lemma splitDatV4_small: "length bytes < 15 \<Longrightarrow> splitDatV4 bytes = Inl FileTooSmall"
  by (simp add: splitDatV4_def)

lemma header_aes_field:
  "subarray (subarray bytes 0 0x0f) 6 10 = take 4 (drop 6 bytes)"
proof -
  have "subarray (subarray bytes 0 0x0f) 6 10 = take 4 (drop 6 (take 15 bytes))"
    by (simp add: subarray_take_drop)
  also have "\<dots> = take 4 (drop 6 bytes)"
    by (simp add: drop_take)
  finally show ?thesis .
qed

lemma header_xor_field:
  "subarray (subarray bytes 0 0x0f) 10 14 = take 4 (drop 10 bytes)"
proof -
  have "subarray (subarray bytes 0 0x0f) 10 14 = take 4 (drop 10 (take 15 bytes))"
    by (simp add: subarray_take_drop)
  also have "\<dots> = take 4 (drop 10 bytes)"
    by (simp add: drop_take)
  finally show ?thesis .
qed

lemma splitDatV4_eq:
  "15 \<le> length bytes \<Longrightarrow>
   splitDatV4 bytes =
     (case bytesToInt32 (take 4 (drop 6 bytes)) of
        Inl e \<Rightarrow> Inl e
      | Inr aesSize \<Rightarrow>
         (case bytesToInt32 (take 4 (drop 10 bytes)) of
            Inl e \<Rightarrow> Inl e
          | Inr xorSize \<Rightarrow>
              if alignedAesSize aesSize > int (length bytes) - 15
              then Inl AesSizeExceedsFile
              else Inr \<lparr> r_aesData = subarray (drop 15 bytes) 0 (alignedAesSize aesSize),
                         r_remaining = subarrayFrom (drop 15 bytes) (alignedAesSize aesSize),
                         r_xorSize = xorSize \<rparr>))"
proof -
  assume len: "15 \<le> length bytes"
  have body: "subarrayFrom bytes 0x0f = drop 15 bytes"
    by (simp add: subarrayFrom_drop)
  have l: "int (length (drop 15 bytes)) = int (length bytes) - 15"
    using len by simp
  show ?thesis
    unfolding splitDatV4_def Let_def header_aes_field header_xor_field body l
    using len by simp
qed

lemma splitDatV4_region_length:
  assumes "splitDatV4 bytes = Inr r"
    and "bytesToInt32 (take 4 (drop 6 bytes)) = Inr aesSize"
    and "0 \<le> aesSize"
  shows "int (length (r_aesData r)) = aesSize + (16 - aesSize mod 16)"
    and "r_aesData r = take (nat (alignedAesSize aesSize)) (drop 15 bytes)"
    and "r_remaining r = drop (nat (alignedAesSize aesSize)) (drop 15 bytes)"
proof -
  have len: "15 \<le> length bytes"
    using assms(1) splitDatV4_small [of bytes] by (cases "length bytes < 15") simp_all
  have "aesSize mod 16 < 16" by simp
  then have pos: "0 \<le> alignedAesSize aesSize"
    using assms(3) by (simp add: alignedAesSize_nonneg)
  obtain xs where xs: "bytesToInt32 (take 4 (drop 10 bytes)) = Inr xs"
    using assms(1,2) len by (cases "bytesToInt32 (take 4 (drop 10 bytes))") (simp_all add: splitDatV4_eq)
  have le: "alignedAesSize aesSize \<le> int (length bytes) - 15"
    using assms(1,2) len xs by (cases "alignedAesSize aesSize > int (length bytes) - 15") (simp_all add: splitDatV4_eq)
  then have r: "r = \<lparr> r_aesData = subarray (drop 15 bytes) 0 (alignedAesSize aesSize),
                   r_remaining = subarrayFrom (drop 15 bytes) (alignedAesSize aesSize),
                   r_xorSize = xs \<rparr>"
    using assms(1,2) len xs by (simp add: splitDatV4_eq)
  show a: "r_aesData r = take (nat (alignedAesSize aesSize)) (drop 15 bytes)"
    using pos by (simp add: r subarray_take_drop)
  show "r_remaining r = drop (nat (alignedAesSize aesSize)) (drop 15 bytes)"
    using pos by (simp add: r subarrayFrom_drop)
  from le pos len have "nat (alignedAesSize aesSize) \<le> length (drop 15 bytes)"
    by simp
  then have "int (length (r_aesData r)) = alignedAesSize aesSize"
    using pos by (simp add: a min_def)
  then show "int (length (r_aesData r)) = aesSize + (16 - aesSize mod 16)"
    using assms(3) by (simp add: alignedAesSize_nonneg)
qed

lemma decryptDatV4Bytes_sizes_rejected:
  assumes "splitDatV4 bytes = Inr r"
    and "r_xorSize r < 0 \<or> int (length (r_remaining r)) < r_xorSize r"
  shows "isl (decryptDatV4Bytes cipher bytes xorKey aesKey)"
proof (cases "if length (r_aesData r) > 0
                then (case aes128EcbDecrypt cipher aesKey (r_aesData r) of
                        Inl e \<Rightarrow> Inl e
                      | Inr decrypted \<Rightarrow> strictRemovePadding decrypted)
                else Inr []")
  case (Inl e)
  with assms(1) show ?thesis by (simp add: decryptDatV4Bytes_def)
next
  case (Inr unpadded)
  with assms show ?thesis by (simp add: decryptDatV4Bytes_def)
qed

lemma splitDatV4_aligned_rejected:
  assumes "15 \<le> length bytes"
    and "bytesToInt32 (take 4 (drop 6 bytes)) = Inr aesSize"
    and "int (length bytes) - 15 < alignedAesSize aesSize"
  shows "decryptDatV4Bytes cipher bytes xorKey aesKey = Inl AesSizeExceedsFile"
proof -
  have "length (take 4 (drop 10 bytes)) = 4"
    using assms(1) by simp
  then obtain xs where "bytesToInt32 (take 4 (drop 10 bytes)) = Inr xs"
    unfolding bytesToInt32_def by simp
  then have "splitDatV4 bytes = Inl AesSizeExceedsFile"
    using assms by (simp add: splitDatV4_eq)
  then show ?thesis by (simp add: decryptDatV4Bytes_def)
qed

text \<open>
  Claim C10, evaluated where the code departs from it. The aesSize field is read as a
  signed 32-bit integer and only xorSize is checked for being negative. With the field
  EF FF FF FF, aesSize is -17 and the aligned size is -16. The length check passes,
  \<open>subarray(0, -16)\<close> counts from the end of the body, and the AES region is the body
  without its last 16 bytes: 16 bytes of a 32-byte body, none of a 16-byte body, which
  then comes back unchanged as the decrypted output, whatever the cipher and the key.
  For aesSize from 0 on, the lemmas above give the region the length the claim states,
  and the size checks reject as it states.
\<close>

theorem decryptDatV4_negative_aesSize:
  "bytesToInt32 (take 4 (drop 6 negAesHeader)) = Inr (-17)
   \<and> alignedAesSize (-17) = -16
   \<and> splitDatV4 (negAesHeader @ replicate 16 0xAA @ replicate 16 0xBB) =
       Inr \<lparr> r_aesData = replicate 16 0xAA, r_remaining = replicate 16 0xBB, r_xorSize = 0 \<rparr>
   \<and> (\<forall>cipher aesKey.
        decryptDatV4Bytes cipher (negAesHeader @ replicate 16 0xBB) 0x53 aesKey
          = Inr (replicate 16 0xBB))"
  by (simp add: decryptDatV4Bytes_def splitDatV4_def negAesHeader_def subarray_def subarrayFrom_def
      relativeIndex_def bytesToInt32_def alignedAesSize_def jsRem_def Let_def)

theorem decryptDatV4_negative_aesSize_witness:
  "int (length (r_aesData (projr
      (splitDatV4 (negAesHeader @ replicate 16 0xAA @ replicate 16 0xBB)))))
   \<noteq> alignedAesSize (-17)
   \<and> \<not> isl (decryptDatV4Bytes (\<lambda>k d. d) (negAesHeader @ replicate 16 0xBB) 0x53 [])"
  using decryptDatV4_negative_aesSize by simp

subsection \<open>V1 and V2: which key decrypts\<close>

lemma asciiKey16_default: "asciiKey16 defaultV1AesKey = Inr (map of_char defaultV1AesKey)"
  by (simp add: asciiKey16_def defaultV1AesKey_def subarray_def relativeIndex_def)

lemma aligned_props:
  assumes "0 \<le> aesSize"
  shows "0 < alignedAesSize aesSize" "alignedAesSize aesSize mod 16 = 0"
proof -
  have a: "alignedAesSize aesSize = aesSize + (16 - aesSize mod 16)"
    using assms by (rule alignedAesSize_nonneg)
  have "aesSize mod 16 < 16" by simp
  then show "0 < alignedAesSize aesSize" using assms a by linarith
  have "alignedAesSize aesSize = 16 * (aesSize div 16) + 16"
    unfolding a by (simp add: minus_mod_eq_mult_div [symmetric] algebra_simps)
  then show "alignedAesSize aesSize mod 16 = 0" by simp
qed

lemma decryptDatV4Bytes_wellFormed:
  assumes aes: "bytesToInt32 (take 4 (drop 6 bytes)) = Inr aesSize"
    and xor: "bytesToInt32 (take 4 (drop 10 bytes)) = Inr xorSize"
    and pos: "0 \<le> aesSize" "0 \<le> xorSize"
    and fit: "alignedAesSize aesSize + xorSize \<le> int (length bytes) - 15"
    and key: "length key = 16"
  shows "decryptDatV4Bytes cipher bytes xorKey key =
     (let body = drop 15 bytes;
          aligned = nat (alignedAesSize aesSize);
          rest = drop aligned body;
          rawLength = length rest - nat xorSize
      in case strictRemovePadding (cipher key (take aligned body)) of
           Inl e \<Rightarrow> Inl e
         | Inr unpadded \<Rightarrow>
             Inr (unpadded @ take rawLength rest @ map (xorByte xorKey) (drop rawLength rest)))"
proof -
  define A where "A = alignedAesSize aesSize"
  have Apos: "0 < A" and Amod: "A mod 16 = 0"
    using aligned_props [OF pos(1)] by (simp_all add: A_def)
  have len: "15 \<le> length bytes" using fit pos Apos by (simp add: A_def)
  have fitA: "\<not> int (length bytes) - 15 < A" using fit pos by (simp add: A_def)
  define rest where "rest = drop (nat A) (drop 15 bytes)"
  define aesData where "aesData = take (nat A) (drop 15 bytes)"
  have split: "splitDatV4 bytes =
      Inr \<lparr> r_aesData = aesData, r_remaining = rest, r_xorSize = xorSize \<rparr>"
    using len aes xor fitA Apos
    by (simp add: splitDatV4_eq A_def [symmetric] subarray_take_drop subarrayFrom_drop rest_def aesData_def)
  have la: "length aesData = nat A"
    using fit pos len by (simp add: A_def aesData_def)
  have lmod: "nat A mod 16 = 0"
    using Amod Apos by (metis nat_0 nat_mod_distrib nat_numeral Apos less_imp_le zero_le_numeral)
  have dec: "aes128EcbDecrypt cipher key aesData = Inr (cipher key aesData)"
    using key la lmod by (simp add: aes128EcbDecrypt_def)
  have nonempty: "0 < length aesData"
    using la Apos by simp
  have lr: "int (length rest) = int (length bytes) - 15 - A"
    using fit pos len Apos by (simp add: rest_def A_def)
  have xs: "\<not> xorSize < 0" "\<not> int (length rest) < xorSize"
    using pos fit lr by (simp_all add: A_def)
  show ?thesis
  proof (cases "strictRemovePadding (cipher key aesData)")
    case (Inl e)
    have "decryptDatV4Bytes cipher bytes xorKey key = Inl e"
      using Inl split dec nonempty by (simp add: decryptDatV4Bytes_def)
    then show ?thesis
      unfolding Let_def A_def [symmetric] aesData_def [symmetric] rest_def [symmetric]
      using Inl by simp
  next
    case (Inr unpadded)
    show ?thesis
    proof (cases "0 < xorSize")
      case True
      have r1: "subarray rest 0 (int (length rest) - xorSize) = take (length rest - nat xorSize) rest"
        using xs True by (simp add: subarray_take_drop nat_diff_distrib)
      have r2: "subarrayFrom rest (int (length rest) - xorSize) = drop (length rest - nat xorSize) rest"
        using xs True by (simp add: subarrayFrom_drop nat_diff_distrib)
      have "decryptDatV4Bytes cipher bytes xorKey key =
          Inr (unpadded @ take (length rest - nat xorSize) rest
               @ map (xorByte xorKey) (drop (length rest - nat xorSize) rest))"
        using split dec nonempty Inr xs True
        unfolding decryptDatV4Bytes_def
        by (simp add: Let_def r1 r2 xorLoop_map)
      then show ?thesis
        unfolding Let_def A_def [symmetric] aesData_def [symmetric] rest_def [symmetric]
        using Inr by simp
    next
      case False
      with pos have z: "xorSize = 0" by simp
      have "decryptDatV4Bytes cipher bytes xorKey key = Inr (unpadded @ rest)"
        using split dec nonempty Inr z
        unfolding decryptDatV4Bytes_def
        by (simp add: Let_def)
      then show ?thesis
        unfolding Let_def A_def [symmetric] aesData_def [symmetric] rest_def [symmetric]
        using Inr z by simp
    qed
  qed
qed


lemma builtin_key_length: "length (map of_char ''cfcd208495d565ef'' :: buffer) = 16"
  by simp

text \<open>
  Claim C8. For a container detected as V2, decryptDatAuto throws the configuration
  error when the key it is given is null or not exactly 16 bytes long, and otherwise runs
  decryptDatV4 with that key. For a container detected as V1 it runs decryptDatV4 with
  the 16 bytes of the built-in key, whatever the key it is given. That key is the one
  the cipher runs under: for a container whose size fields are not negative and fit the
  file, the output is the cipher's result on the AES region under the built-in key (V1)
  or the given key (V2), with its padding removed, followed by the raw region and the
  XOR region.
\<close>

theorem decryptDatAuto_keys:
  "(getDatVersion fs datPath = Inr 2 \<longrightarrow>
      decryptDatAuto cipher fs datPath xorKey aesKey =
        (case aesKey of
           None \<Rightarrow> Inl AesKeyNotConfigured
         | Some key \<Rightarrow> if length key = 16 then decryptDatV4 cipher fs datPath xorKey key
                       else Inl AesKeyNotConfigured))
   \<and> (getDatVersion fs datPath = Inr 1 \<longrightarrow>
      decryptDatAuto cipher fs datPath xorKey aesKey =
        decryptDatV4 cipher fs datPath xorKey (map of_char ''cfcd208495d565ef''))
   \<and> (\<forall>usedKey bytes aesSize xorSize.
        (getDatVersion fs datPath = Inr 1 \<and> usedKey = map of_char ''cfcd208495d565ef''
         \<or> getDatVersion fs datPath = Inr 2 \<and> aesKey = Some usedKey \<and> length usedKey = 16)
        \<and> fs datPath = Some bytes
        \<and> bytesToInt32 (take 4 (drop 6 bytes)) = Inr aesSize
        \<and> bytesToInt32 (take 4 (drop 10 bytes)) = Inr xorSize
        \<and> 0 \<le> aesSize \<and> 0 \<le> xorSize
        \<and> alignedAesSize aesSize + xorSize \<le> int (length bytes) - 15
        \<longrightarrow>
        decryptDatAuto cipher fs datPath xorKey aesKey =
          (let body = drop 15 bytes;
               aligned = nat (alignedAesSize aesSize);
               rest = drop aligned body;
               rawLength = length rest - nat xorSize
           in case strictRemovePadding (cipher usedKey (take aligned body)) of
                Inl e \<Rightarrow> Inl e
              | Inr unpadded \<Rightarrow>
                  Inr (unpadded @ take rawLength rest @ map (xorByte xorKey) (drop rawLength rest))))"
proof (intro conjI allI impI)
  assume "getDatVersion fs datPath = Inr 2"
  then show "decryptDatAuto cipher fs datPath xorKey aesKey =
        (case aesKey of
           None \<Rightarrow> Inl AesKeyNotConfigured
         | Some key \<Rightarrow> if length key = 16 then decryptDatV4 cipher fs datPath xorKey key
                       else Inl AesKeyNotConfigured)"
    by (auto simp: decryptDatAuto_def split: option.splits)
next
  assume "getDatVersion fs datPath = Inr 1"
  then show "decryptDatAuto cipher fs datPath xorKey aesKey =
        decryptDatV4 cipher fs datPath xorKey (map of_char ''cfcd208495d565ef'')"
    using asciiKey16_default by (simp add: decryptDatAuto_def defaultV1AesKey_def)
next
  fix usedKey bytes aesSize xorSize
  assume h: "(getDatVersion fs datPath = Inr 1 \<and> usedKey = map of_char ''cfcd208495d565ef''
         \<or> getDatVersion fs datPath = Inr 2 \<and> aesKey = Some usedKey \<and> length usedKey = 16)
        \<and> fs datPath = Some bytes
        \<and> bytesToInt32 (take 4 (drop 6 bytes)) = Inr aesSize
        \<and> bytesToInt32 (take 4 (drop 10 bytes)) = Inr xorSize
        \<and> 0 \<le> aesSize \<and> 0 \<le> xorSize
        \<and> alignedAesSize aesSize + xorSize \<le> int (length bytes) - 15"
  then have stored: "fs datPath = Some bytes"
    and aes: "bytesToInt32 (take 4 (drop 6 bytes)) = Inr aesSize"
    and xor: "bytesToInt32 (take 4 (drop 10 bytes)) = Inr xorSize"
    and pos: "0 \<le> aesSize" "0 \<le> xorSize"
    and fit: "alignedAesSize aesSize + xorSize \<le> int (length bytes) - 15"
    by simp_all
  from h have len: "length usedKey = 16"
    using builtin_key_length by auto
  from h have "decryptDatAuto cipher fs datPath xorKey aesKey
                 = decryptDatV4 cipher fs datPath xorKey usedKey"
    using asciiKey16_default by (auto simp: decryptDatAuto_def defaultV1AesKey_def)
  also have "\<dots> = decryptDatV4Bytes cipher bytes xorKey usedKey"
    using stored by (simp add: decryptDatV4_def)
  finally show "decryptDatAuto cipher fs datPath xorKey aesKey =
          (let body = drop 15 bytes;
               aligned = nat (alignedAesSize aesSize);
               rest = drop aligned body;
               rawLength = length rest - nat xorSize
           in case strictRemovePadding (cipher usedKey (take aligned body)) of
                Inl e \<Rightarrow> Inl e
              | Inr unpadded \<Rightarrow>
                  Inr (unpadded @ take rawLength rest @ map (xorByte xorKey) (drop rawLength rest)))"
    using decryptDatV4Bytes_wellFormed [OF aes xor pos fit len] by simp
qed

lemma sample_versions:
  "getDatVersion [''v1.dat'' \<mapsto> sampleV1Container] ''v1.dat'' = Inr 1"
  "getDatVersion [''v2.dat'' \<mapsto> sampleV2Container] ''v2.dat'' = Inr 2"
  by (simp_all add: getDatVersion_def compareBytes_iff subarray_0_take signatureV1_def signatureV2_def
      sampleV1Container_def sampleV2Container_def sampleSizes_def)

lemma sample_sizes:
  "bytesToInt32 (take 4 (drop 6 sampleV1Container)) = Inr 5"
  "bytesToInt32 (take 4 (drop 10 sampleV1Container)) = Inr 2"
  "bytesToInt32 (take 4 (drop 6 sampleV2Container)) = Inr 5"
  "bytesToInt32 (take 4 (drop 10 sampleV2Container)) = Inr 2"
  "alignedAesSize 5 = 16"
  by (simp_all add: bytesToInt32_def sampleV1Container_def sampleV2Container_def sampleSizes_def
      signatureV1_def signatureV2_def alignedAesSize_def jsRem_def)


lemmas sample_eval = sampleV1Container_def sampleV2Container_def sampleSizes_def sampleTail_def
  samplePlain_def signatureV1_def signatureV2_def xorCipher_def strictRemovePadding_eq xorByte_def
  Let_def

lemma sample_v1_plain:
  "(let body = drop 15 sampleV1Container;
        aligned = nat 16;
        rest = drop aligned body;
        rawLength = length rest - nat 2
    in case strictRemovePadding (xorCipher (map of_char ''cfcd208495d565ef'') (take aligned body)) of
         Inl e \<Rightarrow> Inl e
       | Inr unpadded \<Rightarrow>
           Inr (unpadded @ take rawLength rest @ map (xorByte 0x53) (drop rawLength rest)))
   = Inr samplePlain"
  by (simp add: sample_eval)

lemma sample_v2_plain:
  "(let body = drop 15 sampleV2Container;
        aligned = nat 16;
        rest = drop aligned body;
        rawLength = length rest - nat 2
    in case strictRemovePadding (xorCipher (map of_char ''0123456789abcdef'') (take aligned body)) of
         Inl e \<Rightarrow> Inl e
       | Inr unpadded \<Rightarrow>
           Inr (unpadded @ take rawLength rest @ map (xorByte 0x53) (drop rawLength rest)))
   = Inr samplePlain"
  by (simp add: sample_eval)

lemma sample_v2_wrong_key:
  "(let body = drop 15 sampleV2Container;
        aligned = nat 16;
        rest = drop aligned body;
        rawLength = length rest - nat 2
    in case strictRemovePadding (xorCipher (map of_char ''cfcd208495d565ef'') (take aligned body)) of
         Inl e \<Rightarrow> Inl e
       | Inr unpadded \<Rightarrow>
           Inr (unpadded @ take rawLength rest @ map (xorByte 0x53) (drop rawLength rest)))
   = Inl PaddingContentIllegal"
  by (simp add: sample_eval)

lemma sample_lengths:
  "length sampleV1Container = 35" "length sampleV2Container = 35"
  by (simp_all add: sample_eval)

theorem decryptDatAuto_keys_witness:
  "decryptDatAuto xorCipher [''v1.dat'' \<mapsto> sampleV1Container] ''v1.dat'' 0x53 None
     = Inr samplePlain
   \<and> decryptDatAuto xorCipher [''v1.dat'' \<mapsto> sampleV1Container] ''v1.dat'' 0x53
       (Some (map of_char ''0123456789abcdef'')) = Inr samplePlain
   \<and> decryptDatAuto xorCipher [''v2.dat'' \<mapsto> sampleV2Container] ''v2.dat'' 0x53
       (Some (map of_char ''0123456789abcdef'')) = Inr samplePlain
   \<and> decryptDatAuto xorCipher [''v2.dat'' \<mapsto> sampleV2Container] ''v2.dat'' 0x53
       (Some (map of_char ''cfcd208495d565ef'')) = Inl PaddingContentIllegal
   \<and> decryptDatAuto xorCipher [''v2.dat'' \<mapsto> sampleV2Container] ''v2.dat'' 0x53 None
     = Inl AesKeyNotConfigured
   \<and> decryptDatAuto xorCipher [''v2.dat'' \<mapsto> sampleV2Container] ''v2.dat'' 0x53
       (Some (replicate 15 0x61)) = Inl AesKeyNotConfigured
   \<and> decryptDatAuto xorCipher [''v2.dat'' \<mapsto> sampleV2Container] ''v2.dat'' 0x53
       (Some (replicate 17 0x61)) = Inl AesKeyNotConfigured"
proof -
  let ?fs1 = "[''v1.dat'' \<mapsto> sampleV1Container]"
  let ?fs2 = "[''v2.dat'' \<mapsto> sampleV2Container]"
  note v1 = decryptDatAuto_keys [where fs = ?fs1 and datPath = "''v1.dat''" and cipher = xorCipher
      and xorKey = "0x53", THEN conjunct2, THEN conjunct2, rule_format,
      where usedKey = "map of_char ''cfcd208495d565ef''" and bytes = sampleV1Container
      and aesSize = 5 and xorSize = 2]
  note v2 = decryptDatAuto_keys [where fs = ?fs2 and datPath = "''v2.dat''" and cipher = xorCipher
      and xorKey = "0x53", THEN conjunct2, THEN conjunct2, rule_format,
      where bytes = sampleV2Container and aesSize = 5 and xorSize = 2]
  note e = decryptDatAuto_keys [where fs = ?fs2 and datPath = "''v2.dat''" and cipher = xorCipher
      and xorKey = "0x53", THEN conjunct1, rule_format, OF sample_versions(2)]
  have a: "decryptDatAuto xorCipher ?fs1 ''v1.dat'' 0x53 aesKey = Inr samplePlain" for aesKey
    using v1 [where aesKey = aesKey] sample_versions sample_sizes sample_lengths sample_v1_plain by simp
  have b: "decryptDatAuto xorCipher ?fs2 ''v2.dat'' 0x53 (Some (map of_char ''0123456789abcdef''))
             = Inr samplePlain"
    using v2 [where aesKey = "Some (map of_char ''0123456789abcdef'')"
          and usedKey = "map of_char ''0123456789abcdef''"]
      sample_versions sample_sizes sample_lengths sample_v2_plain by simp
  have c: "decryptDatAuto xorCipher ?fs2 ''v2.dat'' 0x53 (Some (map of_char ''cfcd208495d565ef''))
             = Inl PaddingContentIllegal"
    using v2 [where aesKey = "Some (map of_char ''cfcd208495d565ef'')"
          and usedKey = "map of_char ''cfcd208495d565ef''"]
      sample_versions sample_sizes sample_lengths sample_v2_wrong_key by simp
  have d: "decryptDatAuto xorCipher ?fs2 ''v2.dat'' 0x53 None = Inl AesKeyNotConfigured"
    "decryptDatAuto xorCipher ?fs2 ''v2.dat'' 0x53 (Some (replicate 15 0x61)) = Inl AesKeyNotConfigured"
    "decryptDatAuto xorCipher ?fs2 ''v2.dat'' 0x53 (Some (replicate 17 0x61)) = Inl AesKeyNotConfigured"
    using e [where aesKey = None] e [where aesKey = "Some (replicate 15 0x61)"]
      e [where aesKey = "Some (replicate 17 0x61)"]
    by simp_all
  show ?thesis
    using a b c d by simp
qed

text \<open>
  decryptDatAuto is reached through resolveAesKey. A configured key that is missing or
  blank arrives as null, one of 16 characters or more as its first 16 bytes. A configured
  key of 1 to 15 characters makes resolveAesKey throw before the version is detected, so
  the request fails for every container, V1 included; whenever resolveAesKey returns, a
  V1 container is decrypted under the built-in key.
\<close>

lemma resolveAesKey_cases:
  "resolveAesKey aesKeyRaw =
     (let trimmed = (case aesKeyRaw of None \<Rightarrow> [] | Some raw \<Rightarrow> jsTrim raw)
      in if trimmed = [] then Inr None
         else if length trimmed < 16 then Inl AesKeyTooShort
         else Inr (Some (take 16 (map of_char trimmed))))"
  by (simp add: resolveAesKey_def asciiKey16_def Let_def subarray_0_take)

lemma resolveAesKey_length:
  "resolveAesKey aesKeyRaw = Inr (Some key) \<Longrightarrow> length key = 16"
  by (auto simp: resolveAesKey_cases Let_def split: if_splits)

lemma decryptWithConfiguredKey_short:
  assumes "aesKeyRaw = Some raw" and "jsTrim raw \<noteq> []" and "length (jsTrim raw) < 16"
  shows "decryptWithConfiguredKey cipher fs datPath xorKey aesKeyRaw = Inl AesKeyTooShort"
  using assms by (simp add: decryptWithConfiguredKey_def resolveAesKey_cases)

lemma decryptWithConfiguredKey_v1:
  assumes "getDatVersion fs datPath = Inr 1" and "resolveAesKey aesKeyRaw = Inr aesKey"
  shows "decryptWithConfiguredKey cipher fs datPath xorKey aesKeyRaw
           = decryptDatV4 cipher fs datPath xorKey (map of_char ''cfcd208495d565ef'')"
  using assms asciiKey16_default
  by (simp add: decryptWithConfiguredKey_def decryptDatAuto_def defaultV1AesKey_def)

lemma sample_configured_keys:
  "decryptWithConfiguredKey xorCipher [''v1.dat'' \<mapsto> sampleV1Container] ''v1.dat'' 0x53 None
     = Inr samplePlain"
  "decryptWithConfiguredKey xorCipher [''v1.dat'' \<mapsto> sampleV1Container] ''v1.dat'' 0x53
     (Some ''0123456789abcdef0123'') = Inr samplePlain"
  "decryptWithConfiguredKey xorCipher [''v1.dat'' \<mapsto> sampleV1Container] ''v1.dat'' 0x53
     (Some '' 0123456789 '') = Inl AesKeyTooShort"
proof -
  have r: "resolveAesKey None = Inr None"
    "resolveAesKey (Some ''0123456789abcdef0123'') = Inr (Some (map of_char ''0123456789abcdef''))"
    by (simp_all add: resolveAesKey_cases jsTrim_def isSpace_def)
  have t: "jsTrim '' 0123456789 '' = ''0123456789''"
    by (simp add: jsTrim_def isSpace_def)
  have plain: "decryptDatV4 xorCipher [''v1.dat'' \<mapsto> sampleV1Container] ''v1.dat'' 0x53
                 (map of_char ''cfcd208495d565ef'') = Inr samplePlain"
    using decryptDatV4Bytes_wellFormed [of sampleV1Container 5 2 "map of_char ''cfcd208495d565ef''"
        xorCipher "0x53"] sample_sizes sample_lengths sample_v1_plain
    by (simp add: decryptDatV4_def)
  show "decryptWithConfiguredKey xorCipher [''v1.dat'' \<mapsto> sampleV1Container] ''v1.dat'' 0x53 None
     = Inr samplePlain"
    using decryptWithConfiguredKey_v1 [OF sample_versions(1) r(1)] plain by simp
  show "decryptWithConfiguredKey xorCipher [''v1.dat'' \<mapsto> sampleV1Container] ''v1.dat'' 0x53
     (Some ''0123456789abcdef0123'') = Inr samplePlain"
    using decryptWithConfiguredKey_v1 [OF sample_versions(1) r(2)] plain by simp
  show "decryptWithConfiguredKey xorCipher [''v1.dat'' \<mapsto> sampleV1Container] ''v1.dat'' 0x53
     (Some '' 0123456789 '') = Inl AesKeyTooShort"
    using decryptWithConfiguredKey_short [OF refl, of " '' 0123456789 ''"] t by simp
qed

section \<open>Properties of the message order\<close>

lemma normalizeMessageOrder_eq:
  "2 \<le> length messages \<Longrightarrow>
   normalizeMessageOrder messages =
     (if orderingKey (hd messages) > orderingKey (last messages) then rev messages else messages)"
  by (cases messages) (auto simp: normalizeMessageOrder_def Let_def last_conv_nth hd_conv_nth)

text \<open>
  Claim C2. A batch of at least two records is returned reversed when the ordering key of
  its first record (sortSeq, else createTime, else localId, else 0) is greater than that
  of its last record, and unchanged otherwise.
\<close>

theorem normalizeMessageOrder_reverses:
  "2 \<le> length messages \<Longrightarrow>
   normalizeMessageOrder messages =
     (if orderingKey (hd messages) > orderingKey (last messages) then rev messages else messages)"
  by (rule normalizeMessageOrder_eq)

theorem normalizeMessageOrder_reverses_witness:
  "map orderingKey
     (normalizeMessageOrder [sampleMessage 50 1 1, sampleMessage 40 2 2, sampleMessage 30 3 3])
     = [30, 40, 50]
   \<and> map orderingKey
     (normalizeMessageOrder [sampleMessage 0 7 1, sampleMessage 0 0 9, sampleMessage 8 3 3])
     = [7, 9, 8]"
  using normalizeMessageOrder_reverses [of "[sampleMessage 50 1 1, sampleMessage 40 2 2, sampleMessage 30 3 3]"]
    normalizeMessageOrder_reverses [of "[sampleMessage 0 7 1, sampleMessage 0 0 9, sampleMessage 8 3 3]"]
  by (simp add: sampleMessage_def orderingKey_def)

section \<open>Properties of the hardlink resolver\<close>

lemma cacheDatPath_walks: "walks (cacheDatPath st accountDir datName datPath) = walks st"
  by (simp add: cacheDatPath_def Let_def)

lemma resolveDatPathSearch_hd_only:
  "resolveDatPathSearch env st accountDir imageDatName False skipCache = (None, st)"
  by (simp add: resolveDatPathSearch_def)

lemma truthy_the: "truthy v \<Longrightarrow> v = Some (the v)"
  by (cases v) (simp_all add: truthy_def)

lemma resolveDatPath_hd_cases:
  assumes "allowThumbnail opts = Some False"
  shows "resolveDatPath env st accountDir imageMd5 imageDatName sessionId (Some opts) = (None, st)
    \<or> (\<exists>h p. resolveHardlinkPath env accountDir h sessionId = Some p \<and> \<not> isThumbnailPath env p
          \<and> (h = the imageMd5 \<or> \<not> (truthy imageMd5
                 \<and> truthy (resolveHardlinkPath env accountDir (the imageMd5) sessionId)))
          \<and> fst (resolveDatPath env st accountDir imageMd5 imageDatName sessionId (Some opts)) = Some p
          \<and> walks (snd (resolveDatPath env st accountDir imageMd5 imageDatName sessionId (Some opts))) = walks st)"
proof -
  let ?hl = "\<lambda>h. resolveHardlinkPath env accountDir h sessionId"
  let ?R = "resolveDatPath env st accountDir imageMd5 imageDatName sessionId (Some opts)"
  have t: "\<And>h. truthy (?hl h) \<Longrightarrow> ?hl h = Some (the (?hl h))"
    by (rule truthy_the)
  show ?thesis
  proof (cases "truthy imageMd5")
    case md5: True
    show ?thesis
    proof (cases "truthy (?hl (the imageMd5))")
      case True
      then show ?thesis
        using assms md5 t [of "the imageMd5"]
        by (cases "isThumbnailPath env (the (?hl (the imageMd5)))")
           (auto simp: resolveDatPath_def Let_def cacheDatPath_walks)
    next
      case miss: False
      show ?thesis
      proof (cases "truthy imageDatName \<and> looksLikeMd5 (the imageDatName) \<and> imageDatName \<noteq> imageMd5")
        case True
        then show ?thesis
          using assms md5 miss t [of "the imageDatName"]
          by (cases "truthy (?hl (the imageDatName))";
              cases "isThumbnailPath env (the (?hl (the imageDatName)))")
            (auto simp: resolveDatPath_def Let_def cacheDatPath_walks resolveDatPathSearch_hd_only)
      next
        case False
        then show ?thesis
          using assms md5 miss
          by (auto simp: resolveDatPath_def Let_def resolveDatPathSearch_hd_only)
      qed
    qed
  next
    case nomd5: False
    show ?thesis
    proof (cases "truthy imageDatName \<and> looksLikeMd5 (the imageDatName)")
      case True
      then show ?thesis
        using assms nomd5 t [of "the imageDatName"]
        by (cases "truthy (?hl (the imageDatName))";
            cases "isThumbnailPath env (the (?hl (the imageDatName)))")
          (auto simp: resolveDatPath_def Let_def cacheDatPath_walks resolveDatPathSearch_hd_only)
    next
      case False
      then show ?thesis
        using assms nomd5
        by (auto simp: resolveDatPath_def Let_def resolveDatPathSearch_hd_only)
    qed
  qed
qed

text \<open>
  Claim C6. With allowThumbnail false, resolveDatPath starts no directory walk, whatever
  the lookups answer. When the hardlink lookup of the content hash answers a
  thumbnail-suffixed file, and likewise when every hardlink lookup answers a
  thumbnail-suffixed file or nothing, the result is null and the state is untouched.
\<close>

theorem resolveDatPath_hd_only:
  assumes "allowThumbnail opts = Some False"
  shows "walks (snd (resolveDatPath env st accountDir imageMd5 imageDatName sessionId (Some opts)))
           = walks st
    \<and> (truthy imageMd5
       \<and> truthy (resolveHardlinkPath env accountDir (the imageMd5) sessionId)
       \<and> isThumbnailPath env (the (resolveHardlinkPath env accountDir (the imageMd5) sessionId))
       \<longrightarrow> resolveDatPath env st accountDir imageMd5 imageDatName sessionId (Some opts) = (None, st))
    \<and> ((\<forall>h p. resolveHardlinkPath env accountDir h sessionId = Some p \<longrightarrow> isThumbnailPath env p)
       \<longrightarrow> resolveDatPath env st accountDir imageMd5 imageDatName sessionId (Some opts) = (None, st))"
  using resolveDatPath_hd_cases [OF assms, of env st accountDir imageMd5 imageDatName sessionId]
    truthy_the [of "resolveHardlinkPath env accountDir (the imageMd5) sessionId"]
  by auto


lemma sample_thumb: "isThumbnailPath sampleImageEnv ''/a/0123456789abcdef_t.dat''"
  by code_simp

lemma sample_thumb_allowed:
  "fst (resolveDatPath sampleImageEnv emptyImageState ''/a'' (Some ''0123456789abcdef'') None None
     (Some \<lparr> allowThumbnail = Some True, skipResolvedCache = Some False \<rparr>))
   = Some ''/a/0123456789abcdef_t.dat''"
  by (simp add: resolveDatPath_def sampleImageEnv_def truthy_def)

theorem resolveDatPath_hd_only_witness:
  "resolveDatPath sampleImageEnv emptyImageState ''/a'' (Some ''0123456789abcdef'') (Some ''pic'') None
     (Some \<lparr> allowThumbnail = Some False, skipResolvedCache = Some True \<rparr>)
   = (None, emptyImageState)
   \<and> walks (snd (resolveDatPath sampleImageEnv emptyImageState ''/a'' None (Some ''pic'') None
     (Some \<lparr> allowThumbnail = Some False, skipResolvedCache = Some True \<rparr>))) = []"
  using sample_thumb
    resolveDatPath_hd_only [of "\<lparr> allowThumbnail = Some False, skipResolvedCache = Some True \<rparr>"
      sampleImageEnv emptyImageState "''/a''" "Some ''0123456789abcdef''" "Some ''pic''" None]
    resolveDatPath_hd_only [of "\<lparr> allowThumbnail = Some False, skipResolvedCache = Some True \<rparr>"
      sampleImageEnv emptyImageState "''/a''" None "Some ''pic''" None]
  by (simp add: sampleImageEnv_def truthy_def emptyImageState_def)

section \<open>Properties of the message cursor manager\<close>

text \<open>
  What holds of the claim on the cursor manager. A call that passes the connection check
  and finds a cursor with the same batch size, times and direction, at an offset other
  than 0, goes straight to the fetch on that cursor, whether or not the offset equals the
  fetched count. Against the reference service, the calls a request adds to the log are
  the close of the old cursor (if any), the open and the fetches on the new cursor when
  one of the reopening conditions holds, and the single fetch on the existing cursor
  otherwise.
\<close>

lemma getMessages_reuses_cursor:
  assumes "c_success (fst (ensureConnected env (wcdb st)))"
    and "messageCursors st sessionId = Some existing"
    and "offset \<noteq> 0"
    and "cs_batchSize existing = max 1 (if limit \<noteq> 0 then limit else messageBatchDefault)"
    and "cs_startTime existing = startTime" and "cs_endTime existing = endTime"
    and "cs_ascending existing = ascending"
  shows "getMessages env st sessionId offset limit startTime endTime ascending =
           fetchPage env (st\<lparr> wcdb := snd (ensureConnected env (wcdb st)) \<rparr>) sessionId existing"
  using assms by (simp add: getMessages_def needNewCursor_def Let_def)

lemma skipToOffset_log:
  "fetchMessageBatch env = listFetch \<Longrightarrow>
   skipToOffset env d state skipped offset = (out, d', state') \<Longrightarrow>
   \<exists>n. ld_calls d' = ld_calls d @ replicate n (FetchBatch (cs_cursor state))"
proof (induction env d state skipped offset arbitrary: out d' state' rule: skipToOffset.induct)
  case (1 env d state skipped offset)
  let ?res = "fetchMessageBatch env d (cs_cursor state)"
  have one: "ld_calls (snd ?res) = ld_calls d @ [FetchBatch (cs_cursor state)]"
    using "1.prems"(1) by (simp add: listFetch_def split: option.splits prod.splits)
  show ?case
  proof (cases "skipped < offset")
    case False
    with "1.prems" have "d' = d"
      by (simp add: skipToOffset.simps [of env d state skipped offset])
    then show ?thesis by (intro exI [of _ 0]) simp
  next
    case lt: True
    show ?thesis
    proof (cases "\<not> b_success (fst ?res) \<or> b_rows (fst ?res) = None
                  \<or> length (the (b_rows (fst ?res))) = 0 \<or> b_hasMore (fst ?res) \<noteq> Some True")
      case True
      with lt "1.prems"(2) have "d' = snd ?res"
        by (auto simp: skipToOffset.simps [of env d state skipped offset] Let_def split: if_splits)
      with one show ?thesis by (intro exI [of _ 1]) simp
    next
      case False
      then have ok: "b_success (fst ?res)" "b_rows (fst ?res) \<noteq> None"
        "length (the (b_rows (fst ?res))) \<noteq> 0" "b_hasMore (fst ?res) = Some True"
        by simp_all
      from ok(2) obtain rows where rows: "b_rows (fst ?res) = Some rows"
        by auto
      with ok lt "1.prems"(2) have rec: "skipToOffset env (snd ?res)
          (state\<lparr> cs_fetched := cs_fetched state + int (length (the (b_rows (fst ?res)))) \<rparr>)
          (skipped + int (length (the (b_rows (fst ?res))))) offset = (out, d', state')"
        by (simp add: skipToOffset.simps [of env d state skipped offset] Let_def)
      from ok lt have "\<exists>n. ld_calls d' = ld_calls (snd ?res) @ replicate n
          (FetchBatch (cs_cursor (state\<lparr> cs_fetched := cs_fetched state
              + int (length (the (b_rows (fst ?res)))) \<rparr>)))"
        by (intro "1.IH" [OF _ refl refl _ _ refl _ "1.prems"(1) rec]) auto
      then obtain n where "ld_calls d' = ld_calls (snd ?res) @ replicate n (FetchBatch (cs_cursor state))"
        by auto
      with one show ?thesis
        by (intro exI [of _ "Suc n"]) (simp add: replicate_app_Cons_same)
    qed
  qed
qed


lemma skipToOffset_cursor:
  "skipToOffset env d state skipped offset = (out, d', state') \<Longrightarrow> cs_cursor state' = cs_cursor state"
proof (induction env d state skipped offset arbitrary: out d' state' rule: skipToOffset.induct)
  case (1 env d state skipped offset)
  let ?res = "fetchMessageBatch env d (cs_cursor state)"
  show ?case
  proof (cases "skipped < offset")
    case False
    with "1.prems" show ?thesis
      by (simp add: skipToOffset.simps [of env d state skipped offset])
  next
    case lt: True
    show ?thesis
    proof (cases "\<not> b_success (fst ?res) \<or> b_rows (fst ?res) = None
                  \<or> length (the (b_rows (fst ?res))) = 0 \<or> b_hasMore (fst ?res) \<noteq> Some True")
      case True
      with lt "1.prems" show ?thesis
        by (auto simp: skipToOffset.simps [of env d state skipped offset] Let_def split: if_splits)
    next
      case False
      then have ok: "b_success (fst ?res)" "b_rows (fst ?res) \<noteq> None"
        "length (the (b_rows (fst ?res))) \<noteq> 0" "b_hasMore (fst ?res) = Some True"
        by simp_all
      from ok(2) obtain rows where rows: "b_rows (fst ?res) = Some rows"
        by auto
      with ok lt "1.prems" have rec: "skipToOffset env (snd ?res)
          (state\<lparr> cs_fetched := cs_fetched state + int (length (the (b_rows (fst ?res)))) \<rparr>)
          (skipped + int (length (the (b_rows (fst ?res))))) offset = (out, d', state')"
        by (simp add: skipToOffset.simps [of env d state skipped offset] Let_def)
      from ok lt have "cs_cursor state' = cs_cursor (state\<lparr> cs_fetched := cs_fetched state
              + int (length (the (b_rows (fst ?res)))) \<rparr>)"
        by (intro "1.IH" [OF _ refl refl _ _ refl _ rec]) auto
      then show ?thesis by simp
    qed
  qed
qed

lemma fetchPage_log:
  "fetchMessageBatch env = listFetch \<Longrightarrow>
   ld_calls (wcdb (snd (fetchPage env st sessionId state)))
     = ld_calls (wcdb st) @ [FetchBatch (cs_cursor state)]"
  by (simp add: fetchPage_def listFetch_def Let_def split: option.splits prod.splits)

lemma listOpen_result:
  "o_success (fst (listOpen d sessionId b asc bt et))"
  "o_cursor (fst (listOpen d sessionId b asc bt et)) = Some (ld_next d)"
  "ld_calls (snd (listOpen d sessionId b asc bt et)) = ld_calls d @ [OpenCursor sessionId b]"
  by (simp_all add: listOpen_def)

lemma getMessages_log:
  assumes conn: "\<And>d. ensureConnected env d = (\<lparr> c_success = True, c_error = None \<rparr>, d)"
    and op: "openMessageCursor env = listOpen"
    and f: "fetchMessageBatch env = listFetch"
    and cl: "closeMessageCursor env = listClose"
    and nz: "ld_next (wcdb st) \<noteq> 0"
  shows "\<exists>post. ld_calls (wcdb (snd (getMessages env st sessionId offset limit startTime endTime ascending)))
     = ld_calls (wcdb st) @
       (if needNewCursor (messageCursors st sessionId) offset
             (max 1 (if limit \<noteq> 0 then limit else messageBatchDefault)) startTime endTime ascending
        then (case messageCursors st sessionId of None \<Rightarrow> []
              | Some old \<Rightarrow> [CloseCursor (cs_cursor old)])
             @ [OpenCursor sessionId (max 1 (if limit \<noteq> 0 then limit else messageBatchDefault))]
             @ replicate post (FetchBatch (ld_next (wcdb st)))
        else [FetchBatch (cs_cursor (the (messageCursors st sessionId)))])"
proof -
  let ?bs = "max 1 (if limit \<noteq> 0 then limit else messageBatchDefault)"
  let ?need = "needNewCursor (messageCursors st sessionId) offset ?bs startTime endTime ascending"
  let ?G = "getMessages env st sessionId offset limit startTime endTime ascending"
  show ?thesis
  proof (cases ?need)
    case False
    then obtain existing where ex: "messageCursors st sessionId = Some existing"
      by (auto simp: needNewCursor_def)
    from False ex have "?G = fetchPage env (st\<lparr> wcdb := wcdb st \<rparr>) sessionId existing"
      by (simp add: getMessages_def Let_def conn)
    then have "ld_calls (wcdb (snd ?G)) = ld_calls (wcdb st) @ [FetchBatch (cs_cursor existing)]"
      by (simp add: fetchPage_log [OF f])
    with False ex show ?thesis by simp
  next
    case True
    define d1 where "d1 = (case messageCursors st sessionId of None \<Rightarrow> wcdb st
               | Some old \<Rightarrow> closeMessageCursor env (wcdb st) (cs_cursor old))"
    define bt where "bt = (if startTime > 10000000000 then startTime div 1000 else startTime)"
    define et where "et = (if endTime > 10000000000 then endTime div 1000 else endTime)"
    define d2 where "d2 = snd (listOpen d1 sessionId ?bs ascending bt et)"
    define state1 where "state1 = \<lparr> cs_cursor = ld_next d1, cs_fetched = 0, cs_batchSize = ?bs,
                      cs_startTime = startTime, cs_endTime = endTime, cs_ascending = ascending \<rparr>"
    have next1: "ld_next d1 = ld_next (wcdb st)"
      by (simp add: d1_def cl listClose_def split: option.splits)
    have log1: "ld_calls d1 = ld_calls (wcdb st) @
        (case messageCursors st sessionId of None \<Rightarrow> [] | Some old \<Rightarrow> [CloseCursor (cs_cursor old)])"
      by (simp add: d1_def cl listClose_def split: option.splits)
    have log2: "ld_calls d2 = ld_calls d1 @ [OpenCursor sessionId ?bs]"
      by (simp add: d2_def listOpen_result)
    have c1: "cs_cursor state1 = ld_next (wcdb st)"
      by (simp add: state1_def next1)
    have G: "?G = (if offset > 0
        then (case skipToOffset env d2 state1 0 offset of
                (SkipError e, d3, state2) \<Rightarrow>
                  (failure e, st\<lparr> wcdb := d3,
                     messageCursors := (messageCursors st)(sessionId \<mapsto> state2) \<rparr>)
              | (SkipExhausted, d3, state2) \<Rightarrow>
                  (\<lparr> r_success = True, r_messages = Some [], r_hasMore = Some False, r_error = None \<rparr>,
                   st\<lparr> wcdb := d3, messageCursors := (messageCursors st)(sessionId \<mapsto> state2) \<rparr>)
              | (SkipDone, d3, state2) \<Rightarrow>
                  fetchPage env (st\<lparr> wcdb := d3,
                     messageCursors := (messageCursors st)(sessionId \<mapsto> state2) \<rparr>) sessionId state2)
        else fetchPage env (st\<lparr> wcdb := d2,
                messageCursors := (messageCursors st)(sessionId \<mapsto> state1) \<rparr>) sessionId state1)"
      using True nz next1
      unfolding getMessages_def Let_def conn op d1_def [symmetric] bt_def [symmetric]
        et_def [symmetric] fst_conv snd_conv
      by (simp add: listOpen_result d2_def state1_def)
    have "\<exists>n. ld_calls (wcdb (snd ?G)) = ld_calls d2 @ replicate n (FetchBatch (ld_next (wcdb st)))"
    proof (cases "offset > 0")
      case False
      with G have "ld_calls (wcdb (snd ?G)) = ld_calls d2 @ [FetchBatch (cs_cursor state1)]"
        by (simp add: fetchPage_log [OF f])
      then show ?thesis
        unfolding c1 by (intro exI [of _ 1]) simp
    next
      case pos: True
      obtain out d3 state2 where sk: "skipToOffset env d2 state1 0 offset = (out, d3, state2)"
        by (cases "skipToOffset env d2 state1 0 offset") auto
      from skipToOffset_log [OF f sk] obtain n where
        n: "ld_calls d3 = ld_calls d2 @ replicate n (FetchBatch (ld_next (wcdb st)))"
        unfolding c1 by auto
      have same: "cs_cursor state2 = ld_next (wcdb st)"
        using skipToOffset_cursor [OF sk] c1 by simp
      show ?thesis
      proof (cases out)
        case (SkipError e)
        with G pos sk n show ?thesis by auto
      next
        case SkipExhausted
        with G pos sk n show ?thesis by auto
      next
        case SkipDone
        with G pos sk have "ld_calls (wcdb (snd ?G)) = ld_calls d3 @ [FetchBatch (cs_cursor state2)]"
          by (simp add: fetchPage_log [OF f])
        with n same show ?thesis
          by (intro exI [of _ "Suc n"]) (simp add: replicate_append_same)
      qed
    qed
    then obtain n where "ld_calls (wcdb (snd ?G)) = ld_calls d2 @ replicate n (FetchBatch (ld_next (wcdb st)))"
      ..
    with True log1 log2 show ?thesis
      by (intro exI [of _ n]) simp
  qed
qed

lemma getMessages_log_reference:
  assumes "ld_next (wcdb st) \<noteq> 0"
  shows "\<exists>post. ld_calls (wcdb (snd (getMessages listEnv st sessionId offset limit startTime endTime ascending)))
     = ld_calls (wcdb st) @
       (if needNewCursor (messageCursors st sessionId) offset
             (max 1 (if limit \<noteq> 0 then limit else messageBatchDefault)) startTime endTime ascending
        then (case messageCursors st sessionId of None \<Rightarrow> []
              | Some old \<Rightarrow> [CloseCursor (cs_cursor old)])
             @ [OpenCursor sessionId (max 1 (if limit \<noteq> 0 then limit else messageBatchDefault))]
             @ replicate post (FetchBatch (ld_next (wcdb st)))
        else [FetchBatch (cs_cursor (the (messageCursors st sessionId)))])"
  by (rule getMessages_log) (simp_all add: listEnv_def assms)



lemmas getMessages_eval = getMessages_def listEnv_def sampleChatState_def needNewCursor_def listOpen_def
       listFetch_def listClose_def fetchPage_def Let_def deliveredKeys_def normalizeMessageOrder_def
       sampleMessage_def orderingKey_def needsEmoticonFix_def messageBatchDefault_def
       skipToOffset.simps errorOr_def truthy_def failure_def

text \<open>
  Claim C1, evaluated where the code departs from it. The skip loop discards whole
  batches until at least offset rows are gone, so it discards more than offset rows when
  the batches do not add up to offset. A session holds rows 1 to 12. The first page
  (offset 0, limit 3) delivers rows 1, 2, 3. The next request (offset 3, limit 5) changes
  the batch size, so the cursor is closed and reopened and the skip loop fetches one
  batch of 5: rows 4 and 5 are discarded with rows 1 to 3, and the page delivered is
  rows 6 to 10. On a fresh cursor, offset 3 with limit 2 discards 4 rows and delivers
  rows 5 and 6. The service's log shows the calls in order.
\<close>

theorem getMessages_skip_overshoots:
  "deliveredKeys (fst (getMessages listEnv sampleChatState ''s'' 0 3 0 0 False)) = [1, 2, 3]
   \<and> deliveredKeys (fst (getMessages listEnv
         (snd (getMessages listEnv sampleChatState ''s'' 0 3 0 0 False)) ''s'' 3 5 0 0 False))
       = [6, 7, 8, 9, 10]
   \<and> ld_calls (wcdb (snd (getMessages listEnv
         (snd (getMessages listEnv sampleChatState ''s'' 0 3 0 0 False)) ''s'' 3 5 0 0 False)))
       = [OpenCursor ''s'' 3, FetchBatch 1, CloseCursor 1, OpenCursor ''s'' 5, FetchBatch 2, FetchBatch 2]
   \<and> deliveredKeys (fst (getMessages listEnv sampleChatState ''s'' 3 2 0 0 False)) = [5, 6]
   \<and> ld_calls (wcdb (snd (getMessages listEnv sampleChatState ''s'' 3 2 0 0 False)))
       = [OpenCursor ''s'' 2, FetchBatch 1, FetchBatch 1, FetchBatch 1]"
  by (simp add: getMessages_eval)

theorem getMessages_skip_overshoots_witness:
  "deliveredKeys (fst (getMessages listEnv
     (snd (getMessages listEnv sampleChatState ''s'' 0 3 0 0 False)) ''s'' 3 5 0 0 False))
   \<noteq> [4, 5, 6, 7, 8]
   \<and> deliveredKeys (fst (getMessages listEnv sampleChatState ''s'' 3 2 0 0 False)) \<noteq> [4, 5]"
  using getMessages_skip_overshoots by simp

section \<open>Properties of the voice lookup\<close>

lemma queriesSince_logged1 [simp]:
  "queriesSince st (logged st a b c) = [(a, b, c)]"
  by (simp add: queriesSince_def logged_def)

lemma queriesSince_logged2 [simp]:
  "queriesSince st (logged (logged st a b c) a' b' c') = [(a, b, c), (a', b', c')]"
  by (simp add: queriesSince_def logged_def)

lemma queriesSince_logged3 [simp]:
  "queriesSince st (logged (logged (logged st a b c) a' b' c') a'' b'' c'')
     = [(a, b, c), (a', b', c'), (a'', b'', c'')]"
  by (simp add: queriesSince_def logged_def)

lemma queriesSince_logged4 [simp]:
  "queriesSince st (logged (logged (logged (logged st a b c) a' b' c') a'' b'' c'') a3 b3 c3)
     = [(a, b, c), (a', b', c'), (a'', b'', c''), (a3, b3, c3)]"
  by (simp add: queriesSince_def logged_def)

lemma queriesSince_same [simp]: "queriesSince st st = []"
  by (simp add: queriesSince_def)

lemma strategy3_eq:
  "strategy3 env st dbPath schema t =
     (timeWindowPayload env dbPath schema t,
      if truthy (timeColumn schema) then logged st Strategy3 dbPath (strategy3Sql schema t) else st)"
  by (simp add: strategy3_def timeWindowPayload_def answer_def Let_def split: queryOutcome.splits)

lemma strategy2_eq:
  "strategy2 env st dbPath schema t =
     (if truthy (timeColumn schema)
      then (if execQuery env ''media'' dbPath (strategy2Sql schema t) = Threw
            then (None, logged st Strategy2 dbPath (strategy2Sql schema t))
            else case exactTimePayload env dbPath schema t of
                   Some b \<Rightarrow> (Some b, logged st Strategy2 dbPath (strategy2Sql schema t))
                 | None \<Rightarrow> (timeWindowPayload env dbPath schema t,
                             logged (logged st Strategy2 dbPath (strategy2Sql schema t))
                               Strategy3 dbPath (strategy3Sql schema t)))
      else (None, st))"
  by (simp add: strategy2_def strategy3_eq exactTimePayload_def timeWindowPayload_def answer_def Let_def
      split: queryOutcome.splits option.splits)


lemma strategy1_eq:
  "strategy1 env st dbPath schema t candidates =
     (if hasIdentityColumns schema
      then (let st1 = logged st IdentityIds dbPath (identityIdsSql schema candidates)
            in if execQuery env ''media'' dbPath (identityIdsSql schema candidates) = Threw
               then (None, st1)
               else case identityIds env dbPath schema candidates of
                      None \<Rightarrow> strategy2 env st1 dbPath schema t
                    | Some ids \<Rightarrow>
                        (let st2 = logged st1 Strategy1 dbPath (strategy1Sql schema ids t)
                         in if execQuery env ''media'' dbPath (strategy1Sql schema ids t) = Threw
                            then (None, st2)
                            else case identityPayload env dbPath schema t candidates of
                                   Some b \<Rightarrow> (Some b, st2)
                                 | None \<Rightarrow> strategy2 env st2 dbPath schema t))
      else strategy2 env st dbPath schema t)"
  by (simp add: strategy1_def identityIds_def identityPayload_def answer_def Let_def
      split: queryOutcome.splits option.splits)

lemma identityPayload_guard:
  "\<not> hasIdentityColumns schema
   \<Longrightarrow> identityPayload env dbPath schema t candidates = None"
  by (auto simp: identityPayload_def identityIds_def)

lemma hasIdentityColumns_time: "hasIdentityColumns schema \<Longrightarrow> truthy (timeColumn schema)"
  by (simp add: hasIdentityColumns_def)

lemma identityPayload_no_ids:
  "identityIds env dbPath schema candidates = None
   \<Longrightarrow> identityPayload env dbPath schema t candidates = None"
  by (simp add: identityPayload_def)

lemma identityPayload_threw:
  "identityIds env dbPath schema candidates = Some ids
   \<Longrightarrow> execQuery env ''media'' dbPath (strategy1Sql schema ids t) = Threw
   \<Longrightarrow> identityPayload env dbPath schema t candidates = None"
  by (simp add: identityPayload_def answer_def)

lemma exactTimePayload_threw:
  "execQuery env ''media'' dbPath (strategy2Sql schema t) = Threw
   \<Longrightarrow> exactTimePayload env dbPath schema t = None"
  by (simp add: exactTimePayload_def answer_def)

lemma payloads_no_time:
  "\<not> truthy (timeColumn schema) \<Longrightarrow>
   exactTimePayload env dbPath schema t = None \<and> timeWindowPayload env dbPath schema t = None"
  by (simp add: exactTimePayload_def timeWindowPayload_def)

text \<open>
  The order of the steps in one media database: identity ids, strategy 1, strategy 2,
  strategy 3. The identity step asks the identity-lookup table for the ids of the
  candidate names, and strategy 1 asks for a row with one of those ids and the exact
  time. Strategy 2, the exact time alone, runs only when strategy 1 yielded no row that
  decodes; strategy 3, the window from five seconds before to five seconds after ordered
  by distance, runs only when strategy 2 yielded none either. What is returned is the
  payload of the first strategy whose query returned a row that decodes, be the decoded
  payload empty or not. When no query throws, a strategy also runs whenever the earlier
  ones yielded nothing and the schema has a time column.
\<close>

lemma strategies_in_order:
  assumes run: "strategy1 env st dbPath schema t candidates = (res, st')"
    and safe: "safeTime t"
    and p1: "p1 = identityPayload env dbPath schema t candidates"
    and p2: "p2 = exactTimePayload env dbPath schema t"
    and p3: "p3 = timeWindowPayload env dbPath schema t"
    and steps: "steps = map fst (queriesSince st st')"
  shows "subseq steps [IdentityIds, Strategy1, Strategy2, Strategy3]
    \<and> (Strategy2 \<in> set steps \<longrightarrow> p1 = None)
    \<and> (Strategy3 \<in> set steps \<longrightarrow> p1 = None \<and> p2 = None)
    \<and> (res \<noteq> None \<longrightarrow> res = firstFound p1 p2 p3)
    \<and> (neverThrows env \<longrightarrow> res = firstFound p1 p2 p3
          \<and> (truthy (timeColumn schema) \<longrightarrow>
                (Strategy2 \<in> set steps \<longleftrightarrow> p1 = None)
              \<and> (Strategy3 \<in> set steps \<longleftrightarrow> p1 = None \<and> p2 = None)))
    \<and> (\<forall>(step, path, sql) \<in> set (queriesSince st st').
          path = dbPath
        \<and> (step = IdentityIds \<longrightarrow> sql = identityIdsSql schema candidates)
        \<and> (step = Strategy1 \<longrightarrow>
              (\<exists>ids. identityIds env dbPath schema candidates = Some ids
                 \<and> sql = strategy1Sql schema ids t))
        \<and> (step = Strategy2 \<longrightarrow> sql = strategy2Sql schema t)
        \<and> (step = Strategy3 \<longrightarrow> sql = strategy3Sql schema t))"
proof (cases "hasIdentityColumns schema")
  case False
  then have i: "p1 = None" using p1 by (simp add: identityPayload_guard)
  from False run have r: "strategy2 env st dbPath schema t = (res, st')"
    by (simp add: strategy1_eq)
  show ?thesis
    using r i p2 p3 steps payloads_no_time [of schema env dbPath t]
      exactTimePayload_threw [of env dbPath schema t]
    by (auto simp: strategy2_eq firstFound_def neverThrows_def split: if_splits option.splits)
next
  case guard0: True
  then have guard: "truthy (timeColumn schema)" by (rule hasIdentityColumns_time)
  note guard0 [simp]
  show ?thesis
  proof (cases "execQuery env ''media'' dbPath (identityIdsSql schema candidates) = Threw")
    case True
    with guard0 run have r: "res = None" "st' = logged st IdentityIds dbPath (identityIdsSql schema candidates)"
      by (simp_all add: strategy1_eq Let_def)
    from True guard0 have "p1 = None" using p1
      by (simp add: identityPayload_def identityIds_def)
    with r True steps show ?thesis
      by (auto simp: neverThrows_def)
  next
    case noThrow0: False
    show ?thesis
    proof (cases "identityIds env dbPath schema candidates")
      case None
      then have i: "p1 = None" using p1 by (simp add: identityPayload_no_ids)
      from guard0 noThrow0 None run
      have r: "strategy2 env (logged st IdentityIds dbPath (identityIdsSql schema candidates))
                 dbPath schema t = (res, st')"
        by (simp add: strategy1_eq Let_def)
      show ?thesis
        using r i p2 p3 steps guard exactTimePayload_threw [of env dbPath schema t]
        by (auto simp: strategy2_eq firstFound_def neverThrows_def split: if_splits option.splits)
    next
      case (Some ids)
      show ?thesis
      proof (cases "execQuery env ''media'' dbPath (strategy1Sql schema ids t) = Threw")
        case True
        with guard0 noThrow0 Some run
        have r: "res = None"
          "st' = logged (logged st IdentityIds dbPath (identityIdsSql schema candidates))
                   Strategy1 dbPath (strategy1Sql schema ids t)"
          by (simp_all add: strategy1_eq Let_def)
        from True Some have "p1 = None" using p1 by (simp add: identityPayload_threw)
        with r True Some steps show ?thesis
          by (auto simp: neverThrows_def)
      next
        case noThrow1: False
        show ?thesis
        proof (cases p1)
          case found: (Some b)
          then have ip: "identityPayload env dbPath schema t candidates = Some b"
            using p1 by simp
          with guard0 noThrow0 Some noThrow1 run
          have r: "res = Some b"
            "st' = logged (logged st IdentityIds dbPath (identityIdsSql schema candidates))
                     Strategy1 dbPath (strategy1Sql schema ids t)"
            by (simp_all add: strategy1_eq Let_def)
          with found Some steps show ?thesis
            by (auto simp: firstFound_def)
        next
          case i: None
          then have ip: "identityPayload env dbPath schema t candidates = None"
            using p1 by simp
          with guard0 noThrow0 Some noThrow1 run
          have r: "strategy2 env
                     (logged (logged st IdentityIds dbPath (identityIdsSql schema candidates))
                        Strategy1 dbPath (strategy1Sql schema ids t))
                     dbPath schema t = (res, st')"
            by (simp add: strategy1_eq Let_def)
          show ?thesis
            using r i p2 p3 steps guard Some exactTimePayload_threw [of env dbPath schema t]
            by (auto simp: strategy2_eq firstFound_def neverThrows_def split: if_splits option.splits)
        qed
      qed
    qed
  qed
qed


lemmas voice_eval = strategy1_def strategy2_def strategy3_def hasIdentityColumns_def truthy_def
  falsy_def sampleSchema_def windowOnlyEnv_def exactTimeEnv_def emptyVoiceState_def logged_def
  identityIdsSql_def strategy1Sql_def strategy2Sql_def strategy3Sql_def showInt_def showNat.simps
  digitChar_def joinWith_def quoteCandidate_def jsString_def joinElement_def decodeFirstRow_def
  decodeVoiceBlob_def hasRows_def field_def noRows_def oneRow_def Let_def

lemma window_run:
  "strategy1 windowOnlyEnv emptyVoiceState ''media_0.db'' sampleSchema 100 [''wxid_a''] =
     (Some [1, 2, 3],
      \<lparr> mediaDbsCache = None, mediaDbSchemaCache = Map.empty,
        queryLog = [(IdentityIds, ''media_0.db'', identityIdsSql sampleSchema [''wxid_a'']),
                    (Strategy1, ''media_0.db'', strategy1Sql sampleSchema [Num 7] 100),
                    (Strategy2, ''media_0.db'', strategy2Sql sampleSchema 100),
                    (Strategy3, ''media_0.db'', strategy3Sql sampleSchema 100)] \<rparr>)"
  by (simp add: voice_eval)

lemma window_sql:
  "strategy3Sql sampleSchema 100 =
     ''SELECT voice_data AS data FROM VoiceInfo WHERE create_time BETWEEN 95 AND 105 ORDER BY ABS(create_time - 100) LIMIT 1''"
  by (simp add: voice_eval)

lemma exact_run:
  "fst (strategy1 exactTimeEnv emptyVoiceState ''media_0.db'' sampleSchema 100 [''wxid_a''])
     = Some [4, 5]
   \<and> map fst (queryLog (snd (strategy1 exactTimeEnv emptyVoiceState ''media_0.db'' sampleSchema 100
         [''wxid_a''])))
     = [IdentityIds, Strategy2]"
  by (simp add: voice_eval)


lemma window_only_sample:
  "fst (strategy1 windowOnlyEnv emptyVoiceState ''media_0.db'' sampleSchema 100 [''wxid_a''])
     = Some [1, 2, 3]
   \<and> identityPayload windowOnlyEnv ''media_0.db'' sampleSchema 100 [''wxid_a''] = None
   \<and> exactTimePayload windowOnlyEnv ''media_0.db'' sampleSchema 100 = None
   \<and> Some [1, 2, 3] =
       firstFound (identityPayload windowOnlyEnv ''media_0.db'' sampleSchema 100 [''wxid_a''])
         (exactTimePayload windowOnlyEnv ''media_0.db'' sampleSchema 100)
         (timeWindowPayload windowOnlyEnv ''media_0.db'' sampleSchema 100)"
proof -
  have l: "queryLog emptyVoiceState = []"
    by (simp add: emptyVoiceState_def)
  have sf: "safeTime 100"
    by (simp add: safeTime_def)
  show ?thesis
    using strategies_in_order [OF window_run sf refl refl refl refl]
    by (simp add: window_run queriesSince_def l)
qed

subsection \<open>An empty payload ends the lookup\<close>

lemma decodeVoiceBlob_empty_buffer: "decodeVoiceBlob env (Buf []) = Some []"
  by (simp add: decodeVoiceBlob_def falsy_def)

lemma discoverSchema_cached:
  "mediaDbSchemaCache st dbPath = Some schema \<Longrightarrow> discoverSchema env st dbPath = (Some schema, st)"
  by (simp add: discoverSchema_def)

lemma identityIds_Some:
  assumes "identityIds env dbPath schema candidates = Some ids"
  shows "hasIdentityColumns schema"
    and "execQuery env ''media'' dbPath (identityIdsSql schema candidates) \<noteq> Threw"
  using assms by (auto simp: identityIds_def split: if_splits)

lemma strategy1_identity_found:
  assumes "identityIds env dbPath schema candidates = Some ids"
    and "execQuery env ''media'' dbPath (strategy1Sql schema ids t) \<noteq> Threw"
    and "identityPayload env dbPath schema t candidates = Some b"
  shows "strategy1 env st dbPath schema t candidates =
      (Some b, logged (logged st IdentityIds dbPath (identityIdsSql schema candidates))
                  Strategy1 dbPath (strategy1Sql schema ids t))"
  using identityIds_Some [OF assms(1)] assms
  by (simp add: strategy1_eq Let_def)

text \<open>
  Claim C7, evaluated where the code departs from it. A strategy has found a payload
  when decodeVoiceBlob returns a buffer, and the test \<open>if (silkData)\<close> holds for every
  buffer, an empty one too. So when the row that strategy 1 finds holds an empty buffer,
  the lookup returns that empty payload and sends neither the exact-time query nor the
  time-window query, whatever they would find. The order of the strategies is the one
  the claim states (lemma \<open>strategies_in_order\<close>); what is returned is the first decoded
  payload, not the first one that is not empty.
\<close>

theorem voice_empty_payload_returned:
  assumes dbs: "mediaDbsCache st = Some (dbPath # rest)"
    and cached: "mediaDbSchemaCache st dbPath = Some schema"
    and ids: "identityIds env dbPath schema candidates = Some ids"
    and res: "execQuery env ''media'' dbPath (strategy1Sql schema ids t) = Returned voiceResult"
    and rows: "hasRows voiceResult"
    and empty: "field (the (q_rows voiceResult) ! 0) ''data'' = Buf []"
    and safe: "safeTime t"
  shows "decodeVoiceBlob env (Buf []) = Some []
    \<and> fst (getVoiceDataFromMediaDb env st t candidates) = Some []
    \<and> queriesSince st (snd (getVoiceDataFromMediaDb env st t candidates))
        = [(IdentityIds, dbPath, identityIdsSql schema candidates),
           (Strategy1, dbPath, strategy1Sql schema ids t)]"
proof -
  have d: "decodeVoiceBlob env (Buf []) = Some []"
    by (rule decodeVoiceBlob_empty_buffer)
  have p: "identityPayload env dbPath schema t candidates = Some []"
    using ids res rows empty d
    by (simp add: identityPayload_def answer_def decodeFirstRow_def)
  have nt: "execQuery env ''media'' dbPath (strategy1Sql schema ids t) \<noteq> Threw"
    using res by simp
  have s1: "strategy1 env st dbPath schema t candidates =
      (Some [], logged (logged st IdentityIds dbPath (identityIdsSql schema candidates))
                  Strategy1 dbPath (strategy1Sql schema ids t))"
    using ids nt p by (rule strategy1_identity_found)
  have "getVoiceDataFromMediaDb env st t candidates =
      (Some [], logged (logged st IdentityIds dbPath (identityIdsSql schema candidates))
                  Strategy1 dbPath (strategy1Sql schema ids t))"
    using dbs s1 discoverSchema_cached [OF cached]
    by (simp add: getVoiceDataFromMediaDb_def)
  with d show ?thesis by simp
qed

lemmas empty_eval = emptyPayloadEnv_def cachedVoiceState_def sampleSchema_def
  hasIdentityColumns_def truthy_def falsy_def identityIdsSql_def strategy1Sql_def strategy2Sql_def
  strategy3Sql_def voiceTablesSql_def tableInfoSql_def name2IdTablesSql_def
  showInt_def showNat.simps digitChar_def joinWith_def quoteCandidate_def jsString_def
  joinElement_def hasRows_def field_def noRows_def oneRow_def Let_def

lemma empty_sample_ids:
  "identityIds emptyPayloadEnv ''media_0.db'' sampleSchema [''wxid_a''] = Some [Num 7]"
  by (simp add: identityIds_def empty_eval)

lemma empty_sample_row:
  "execQuery emptyPayloadEnv ''media'' ''media_0.db'' (strategy1Sql sampleSchema [Num 7] 100)
     = Returned \<lparr> q_success = True, q_rows = Some [[(''data'', Buf [])]] \<rparr>"
  by (simp add: empty_eval)

lemma empty_sample_exact:
  "exactTimePayload emptyPayloadEnv ''media_0.db'' sampleSchema 100 = Some [4, 5]"
  by (simp add: exactTimePayload_def answer_def decodeFirstRow_def decodeVoiceBlob_def empty_eval)

theorem voice_empty_payload_returned_witness:
  "fst (getVoiceDataFromMediaDb emptyPayloadEnv cachedVoiceState 100 [''wxid_a'']) = Some []
   \<and> map fst (queriesSince cachedVoiceState
        (snd (getVoiceDataFromMediaDb emptyPayloadEnv cachedVoiceState 100 [''wxid_a''])))
      = [IdentityIds, Strategy1]
   \<and> exactTimePayload emptyPayloadEnv ''media_0.db'' sampleSchema 100 = Some [4, 5]"
proof -
  have dbs: "mediaDbsCache cachedVoiceState = Some (''media_0.db'' # [])"
    and cached: "mediaDbSchemaCache cachedVoiceState ''media_0.db'' = Some sampleSchema"
    by (simp_all add: cachedVoiceState_def)
  have rows: "hasRows \<lparr> q_success = True, q_rows = Some [[(''data'', Buf [])]] \<rparr>"
    and empty: "field (the (q_rows \<lparr> q_success = True, q_rows = Some [[(''data'', Buf [])]] \<rparr>) ! 0)
                  ''data'' = Buf []"
    by (simp_all add: hasRows_def field_def)
  have safe: "safeTime 100"
    by (simp add: safeTime_def)
  show ?thesis
    using voice_empty_payload_returned [OF dbs cached empty_sample_ids empty_sample_row rows empty safe]
      empty_sample_exact
    by simp
qed

text \<open>
  The same request on a fresh service, with the list of media databases and the schema
  still to be discovered.
\<close>

lemma empty_sample_fresh:
  "fst (getVoiceDataFromMediaDb emptyPayloadEnv emptyVoiceState 100 [''wxid_a'']) = Some []
   \<and> map fst (queryLog (snd (getVoiceDataFromMediaDb emptyPayloadEnv emptyVoiceState 100 [''wxid_a''])))
      = [FindVoiceTable, TableInfo, FindName2IdTable, IdentityIds, Strategy1]"
proof -
  have schema: "discoverSchema emptyPayloadEnv
        (emptyVoiceState\<lparr> mediaDbsCache := Some [''media_0.db''] \<rparr>) ''media_0.db''
      = (Some sampleSchema,
         \<lparr> mediaDbsCache = Some [''media_0.db''],
           mediaDbSchemaCache = [''media_0.db'' \<mapsto> sampleSchema],
           queryLog = [(FindVoiceTable, ''media_0.db'', voiceTablesSql),
                       (TableInfo, ''media_0.db'', tableInfoSql ''VoiceInfo''),
                       (FindName2IdTable, ''media_0.db'', name2IdTablesSql)] \<rparr>)"
    by (simp add: discoverSchema_def emptyVoiceState_def logged_def columnMapOf_def columnName_def
        findColumn_def toLowerCase_def lowerChar_def empty_eval)
  have p: "identityPayload emptyPayloadEnv ''media_0.db'' sampleSchema 100 [''wxid_a''] = Some []"
    using empty_sample_ids empty_sample_row
    by (simp add: identityPayload_def answer_def decodeFirstRow_def decodeVoiceBlob_def hasRows_def
        field_def falsy_def)
  have nt: "execQuery emptyPayloadEnv ''media'' ''media_0.db'' (strategy1Sql sampleSchema [Num 7] 100)
              \<noteq> Threw"
    using empty_sample_row by simp
  note s1 = strategy1_identity_found [OF empty_sample_ids nt p]
  have l: "listMediaDbs emptyPayloadEnv = \<lparr> l_success = True, l_data = Some [''media_0.db''] \<rparr>"
    by (simp add: emptyPayloadEnv_def)
  have m: "mediaDbsCache emptyVoiceState = None"
    by (simp add: emptyVoiceState_def)
  show ?thesis
    using schema s1 l m
    by (simp add: getVoiceDataFromMediaDb_def logged_def)
qed

section \<open>Properties of the in-flight maps\<close>

lemma enter_pending:
  "pending (decryptImageEnter env st payload) =
     (if startsTask env st payload
      then (pending st)(the (decryptCacheKey payload) \<mapsto> length (started st))
      else pending st)"
  by (auto simp: decryptImageEnter_def startsTask_def Let_def split: option.splits)

lemma enter_started:
  "started (decryptImageEnter env st payload) =
     (if startsTask env st payload
      then started st @ [(length (started st), the (decryptCacheKey payload))]
      else started st)"
  by (auto simp: decryptImageEnter_def startsTask_def Let_def split: option.splits)

lemma enter_awaiting:
  "awaiting (decryptImageEnter env st payload) =
     (if startsTask env st payload
      then (awaiting st)(length (returned st) \<mapsto> the (decryptCacheKey payload))
      else awaiting st)"
  by (auto simp: decryptImageEnter_def startsTask_def Let_def split: option.splits)

lemma enter_returned:
  "returned (decryptImageEnter env st payload) =
     returned st @
       [if \<not> truthy (decryptCacheKey payload) then (None, MissingIdentifier)
        else if servedFromCache env st payload
        then (decryptCacheKey payload,
              CacheHit (the (resolvedCache st (the (decryptCacheKey payload)))))
        else (decryptCacheKey payload,
              TaskResult (case pending st (the (decryptCacheKey payload)) of
                            Some task \<Rightarrow> task | None \<Rightarrow> length (started st)))]"
  by (auto simp: decryptImageEnter_def Let_def split: option.splits)

lemma finally_fields:
  "pending (decryptImageFinally st call) =
     (case awaiting st call of None \<Rightarrow> pending st | Some key \<Rightarrow> (pending st)(key := None))"
  "awaiting (decryptImageFinally st call) = (awaiting st)(call := None)"
  "started (decryptImageFinally st call) = started st"
  "returned (decryptImageFinally st call) = returned st"
  by (auto simp: decryptImageFinally_def split: option.splits)

lemma invariant_new: "inFlightInvariant newDecryptService"
  by (simp add: inFlightInvariant_def newDecryptService_def)

lemma invariant_step:
  assumes "inFlightInvariant st"
  shows "inFlightInvariant (imageStep env st e)"
proof (cases e)
  case (RequestImage payload)
  show ?thesis
  proof (cases "startsTask env st payload")
    case True
    then have free: "pending st (the (decryptCacheKey payload)) = None"
      by (simp add: startsTask_def)
    have nobody: "awaiting st call \<noteq> Some (the (decryptCacheKey payload))" for call
    proof
      assume "awaiting st call = Some (the (decryptCacheKey payload))"
      with assms have "pending st (the (decryptCacheKey payload)) \<noteq> None"
        unfolding inFlightInvariant_def by blast
      with free show False by simp
    qed
    from assms have old: "\<And>call key. awaiting st call = Some key \<Longrightarrow> call < length (returned st)"
      by (auto simp: inFlightInvariant_def)
    show ?thesis
      using assms True nobody old RequestImage
      unfolding inFlightInvariant_def
      by (auto simp: enter_pending enter_awaiting enter_returned less_Suc_eq split: if_splits)
  next
    case False
    with assms RequestImage show ?thesis
      unfolding inFlightInvariant_def
      by (auto simp: enter_pending enter_awaiting enter_returned less_Suc_eq)
  qed
next
  case (TaskSettled call)
  with assms show ?thesis
    unfolding inFlightInvariant_def
    by (auto simp: finally_fields split: option.splits if_splits)
next
  case (CacheWritten cache)
  with assms show ?thesis
    by (simp add: inFlightInvariant_def)
qed

lemma invariant_run:
  "inFlightInvariant st \<Longrightarrow> inFlightInvariant (runImage env events st)"
  unfolding runImage_def
  by (induction events arbitrary: st) (simp_all add: invariant_step)


lemma startsFor_append:
  "startsFor k (log @ [(task, key)]) = (if key = k then startsFor k log @ [task] else startsFor k log)"
  by (simp add: startsFor_def)

lemma inWindow_step:
  assumes w: "inWindow k t c0 n S st" and e: "e \<noteq> TaskSettled c0"
  shows "inWindow k t c0 n S (imageStep env st e)"
proof -
  from w have inv: "inFlightInvariant st" and p: "pending st k = Some t"
    and a: "awaiting st c0 = Some k" and s: "startsFor k (started st) = S"
    and n: "n \<le> length (returned st)"
    and r: "\<forall>(key, out) \<in> set (drop n (returned st)).
              key = Some k \<longrightarrow> out = TaskResult t \<or> (\<exists>p. out = CacheHit p)"
    by (simp_all add: inWindow_def)
  have inv': "inFlightInvariant (imageStep env st e)"
    using inv by (rule invariant_step)
  from inv a have c0: "c0 < length (returned st)"
    unfolding inFlightInvariant_def by blast
  show ?thesis
  proof (cases e)
    case (RequestImage payload)
    show ?thesis
    proof (cases "startsTask env st payload")
      case True
      then have other: "the (decryptCacheKey payload) \<noteq> k"
        using p by (auto simp: startsTask_def)
      from True have tr: "truthy (decryptCacheKey payload)" and ns: "\<not> servedFromCache env st payload"
        by (simp_all add: startsTask_def)
      from tr other have ok: "decryptCacheKey payload \<noteq> Some k"
        by (cases "decryptCacheKey payload") (auto simp: truthy_def)
      show ?thesis
        unfolding inWindow_def
        using inv' True other ok tr ns p a s n r c0 RequestImage
        by (auto simp: enter_pending enter_awaiting enter_started enter_returned startsFor_append)
    next
      case False
      have "decryptCacheKey payload = Some k \<Longrightarrow> truthy (decryptCacheKey payload)
            \<Longrightarrow> \<not> servedFromCache env st payload
            \<Longrightarrow> pending st (the (decryptCacheKey payload)) = Some t"
        using p by simp
      then show ?thesis
        unfolding inWindow_def
        using inv' False p a s n r RequestImage
        by (auto simp: enter_pending enter_awaiting enter_started enter_returned)
    qed
  next
    case (TaskSettled call)
    with e have ne: "call \<noteq> c0" by simp
    have keep: "pending (decryptImageFinally st call) k = Some t"
    proof (cases "awaiting st call")
      case None
      then show ?thesis using p by (simp add: finally_fields)
    next
      case (Some key)
      have "key \<noteq> k"
      proof
        assume "key = k"
        with Some a inv have "call = c0"
          unfolding inFlightInvariant_def by blast
        with ne show False by simp
      qed
      with Some p show ?thesis by (simp add: finally_fields)
    qed
    show ?thesis
      unfolding inWindow_def
      using inv' keep ne a s n r TaskSettled
      by (simp add: finally_fields)
  next
    case (CacheWritten cache)
    with w inv' show ?thesis
      by (simp add: inWindow_def)
  qed
qed

lemma inWindow_run:
  "inWindow k t c0 n S st \<Longrightarrow> TaskSettled c0 \<notin> set events
   \<Longrightarrow> inWindow k t c0 n S (runImage env events st)"
  unfolding runImage_def
proof (induction events arbitrary: st)
  case Nil
  then show ?case by simp
next
  case (Cons e events)
  from Cons.prems have "e \<noteq> TaskSettled c0" by auto
  with Cons.prems(1) have "inWindow k t c0 n S (imageStep env st e)"
    by (rule inWindow_step)
  with Cons show ?case by simp
qed

lemma inWindow_opens:
  assumes inv: "inFlightInvariant st"
    and free: "pending st k = None"
    and key: "decryptCacheKey payload = Some k" and ne: "k \<noteq> []"
    and miss: "\<not> servedFromCache env st payload"
  shows "inWindow k (length (started st)) (length (returned st)) (length (returned st))
           (startsFor k (started st) @ [length (started st)])
           (decryptImageEnter env st payload)"
proof -
  have st: "startsTask env st payload"
    using free key ne miss by (simp add: startsTask_def truthy_def)
  have "inFlightInvariant (imageStep env st (RequestImage payload))"
    using inv by (rule invariant_step)
  then have "inFlightInvariant (decryptImageEnter env st payload)" by simp
  then show ?thesis
    unfolding inWindow_def
    using st key ne miss free
    by (simp add: enter_pending enter_awaiting enter_started enter_returned startsFor_append truthy_def)
qed


lemma tenter_pending:
  "voiceTranscriptPending (getVoiceTranscriptEnter st sessionId msgId time first) =
     (if startsTranscription st sessionId msgId time
      then (voiceTranscriptPending st)(getVoiceCacheKey sessionId msgId time
             \<mapsto> length (transcriptStarted st))
      else voiceTranscriptPending st)"
  by (auto simp: getVoiceTranscriptEnter_def startsTranscription_def Let_def
      split: option.splits firstSection.splits)

lemma tenter_started:
  "transcriptStarted (getVoiceTranscriptEnter st sessionId msgId time first) =
     (if startsTranscription st sessionId msgId time
      then transcriptStarted st
             @ [(length (transcriptStarted st), getVoiceCacheKey sessionId msgId time)]
      else transcriptStarted st)"
  by (auto simp: getVoiceTranscriptEnter_def startsTranscription_def Let_def
      split: option.splits firstSection.splits)

lemma tenter_running:
  "transcriptRunning (getVoiceTranscriptEnter st sessionId msgId time first) =
     (if startsTranscription st sessionId msgId time \<and> first = ReachesAwait
      then (transcriptRunning st)(length (transcriptStarted st)
             \<mapsto> getVoiceCacheKey sessionId msgId time)
      else transcriptRunning st)"
  by (auto simp: getVoiceTranscriptEnter_def startsTranscription_def Let_def
      split: option.splits firstSection.splits)

lemma tenter_cache:
  "voiceTranscriptCache (getVoiceTranscriptEnter st sessionId msgId time first)
     = voiceTranscriptCache st"
  by (auto simp: getVoiceTranscriptEnter_def Let_def split: option.splits firstSection.splits)

lemma tenter_returned:
  "transcriptReturned (getVoiceTranscriptEnter st sessionId msgId time first) =
     transcriptReturned st @
       [if time = None \<or> time = Some 0 then (None, NoTimestamp)
        else if truthy (map_of (voiceTranscriptCache st) (getVoiceCacheKey sessionId msgId time))
        then (Some (getVoiceCacheKey sessionId msgId time),
              CachedTranscript
                (the (map_of (voiceTranscriptCache st) (getVoiceCacheKey sessionId msgId time))))
        else (Some (getVoiceCacheKey sessionId msgId time),
              TranscriptTask
                (case voiceTranscriptPending st (getVoiceCacheKey sessionId msgId time) of
                   Some task \<Rightarrow> task | None \<Rightarrow> length (transcriptStarted st)))]"
  by (auto simp: getVoiceTranscriptEnter_def Let_def split: option.splits firstSection.splits)

lemma tdone_fields:
  "voiceTranscriptPending (transcriptTaskDone st task result) =
     (case transcriptRunning st task of
        None \<Rightarrow> voiceTranscriptPending st
      | Some key \<Rightarrow> (voiceTranscriptPending st)(key := None))"
  "transcriptRunning (transcriptTaskDone st task result) = (transcriptRunning st)(task := None)"
  "transcriptStarted (transcriptTaskDone st task result) = transcriptStarted st"
  "transcriptReturned (transcriptTaskDone st task result) = transcriptReturned st"
  by (auto simp: transcriptTaskDone_def split: option.splits)

lemma transcriptInvariant_new: "transcriptInvariant newTranscriptService"
  by (simp add: transcriptInvariant_def newTranscriptService_def)

lemma transcriptInvariant_step:
  assumes "transcriptInvariant st"
  shows "transcriptInvariant (transcriptStep st e)"
proof (cases e)
  case (RequestTranscript sessionId msgId time first)
  show ?thesis
  proof (cases "startsTranscription st sessionId msgId time")
    case True
    then have free: "voiceTranscriptPending st (getVoiceCacheKey sessionId msgId time) = None"
      by (simp add: startsTranscription_def)
    have nobody: "transcriptRunning st task \<noteq> Some (getVoiceCacheKey sessionId msgId time)" for task
    proof
      assume "transcriptRunning st task = Some (getVoiceCacheKey sessionId msgId time)"
      with assms have "voiceTranscriptPending st (getVoiceCacheKey sessionId msgId time) = Some task"
        unfolding transcriptInvariant_def by blast
      with free show False by simp
    qed
    from assms have old: "\<And>task key. transcriptRunning st task = Some key
        \<Longrightarrow> task < length (transcriptStarted st) \<and> voiceTranscriptPending st key = Some task"
      unfolding transcriptInvariant_def by blast
    show ?thesis
      unfolding transcriptInvariant_def
      using True nobody old RequestTranscript
      by (auto simp: tenter_pending tenter_running tenter_started less_Suc_eq)
  next
    case False
    with assms RequestTranscript show ?thesis
      unfolding transcriptInvariant_def
      by (simp add: tenter_pending tenter_running tenter_started)
  qed
next
  case (TranscriptDone task result)
  from assms have old: "\<And>task key. transcriptRunning st task = Some key
      \<Longrightarrow> task < length (transcriptStarted st) \<and> voiceTranscriptPending st key = Some task"
    unfolding transcriptInvariant_def by blast
  have uniq: "t1 = t2"
    if "transcriptRunning st t1 = Some key" "transcriptRunning st t2 = Some key" for t1 t2 key
  proof -
    from that old have "voiceTranscriptPending st key = Some t1"
      "voiceTranscriptPending st key = Some t2" by blast+
    then show ?thesis by simp
  qed
  show ?thesis
    unfolding transcriptInvariant_def
    using old uniq TranscriptDone
    by (auto simp: tdone_fields split: option.splits)
qed

lemma transcriptWindow_step:
  assumes w: "transcriptWindow k t n S st" and e: "\<not> isDone t e"
  shows "transcriptWindow k t n S (transcriptStep st e)"
proof -
  from w have inv: "transcriptInvariant st" and p: "voiceTranscriptPending st k = Some t"
    and a: "transcriptRunning st t = Some k" and s: "startsFor k (transcriptStarted st) = S"
    and n: "n \<le> length (transcriptReturned st)"
    and r: "\<forall>(key, out) \<in> set (drop n (transcriptReturned st)).
              key = Some k \<longrightarrow> out = TranscriptTask t \<or> (\<exists>text. out = CachedTranscript text)"
    by (simp_all add: transcriptWindow_def)
  have inv': "transcriptInvariant (transcriptStep st e)"
    using inv by (rule transcriptInvariant_step)
  from inv a have t: "t < length (transcriptStarted st)"
    unfolding transcriptInvariant_def by blast
  show ?thesis
  proof (cases e)
    case (RequestTranscript sessionId msgId time first)
    show ?thesis
    proof (cases "startsTranscription st sessionId msgId time")
      case True
      then have other: "getVoiceCacheKey sessionId msgId time \<noteq> k"
        using p by (auto simp: startsTranscription_def)
      from True have tm: "time \<noteq> None" "time \<noteq> Some 0"
        and nc: "\<not> truthy (map_of (voiceTranscriptCache st) (getVoiceCacheKey sessionId msgId time))"
        by (simp_all add: startsTranscription_def)
      show ?thesis
        unfolding transcriptWindow_def
        using inv' True other tm nc p a s n r t RequestTranscript
        by (auto simp: tenter_pending tenter_running tenter_started tenter_returned startsFor_append)
    next
      case False
      show ?thesis
        unfolding transcriptWindow_def
        using inv' False p a s n r RequestTranscript
        by (auto simp: tenter_pending tenter_running tenter_started tenter_returned)
    qed
  next
    case (TranscriptDone task result)
    with e have ne: "task \<noteq> t" by (simp add: isDone_def)
    have keep: "voiceTranscriptPending (transcriptTaskDone st task result) k = Some t"
    proof (cases "transcriptRunning st task")
      case None
      then show ?thesis using p by (simp add: tdone_fields)
    next
      case (Some key)
      have "key \<noteq> k"
      proof
        assume "key = k"
        with Some inv have "voiceTranscriptPending st k = Some task"
          unfolding transcriptInvariant_def by blast
        with p ne show False by simp
      qed
      with Some p show ?thesis by (simp add: tdone_fields)
    qed
    show ?thesis
      unfolding transcriptWindow_def
      using inv' keep ne a s n r TranscriptDone
      by (simp add: tdone_fields)
  qed
qed

lemma transcriptWindow_run:
  "transcriptWindow k t n S st \<Longrightarrow> \<forall>e \<in> set events. \<not> isDone t e
   \<Longrightarrow> transcriptWindow k t n S (runTranscript events st)"
  unfolding runTranscript_def
proof (induction events arbitrary: st)
  case Nil
  then show ?case by simp
next
  case (Cons e events)
  from Cons.prems have "\<not> isDone t e" by auto
  with Cons.prems(1) have "transcriptWindow k t n S (transcriptStep st e)"
    by (rule transcriptWindow_step)
  with Cons show ?case by simp
qed

lemma transcriptInvariant_run:
  "transcriptInvariant st \<Longrightarrow> transcriptInvariant (runTranscript events st)"
  unfolding runTranscript_def
  by (induction events arbitrary: st) (simp_all add: transcriptInvariant_step)

lemma transcriptWindow_opens:
  assumes inv: "transcriptInvariant st"
    and st: "startsTranscription st sessionId msgId time"
    and k: "k = getVoiceCacheKey sessionId msgId time"
  shows "transcriptWindow k (length (transcriptStarted st)) (length (transcriptReturned st))
           (startsFor k (transcriptStarted st) @ [length (transcriptStarted st)])
           (getVoiceTranscriptEnter st sessionId msgId time ReachesAwait)"
proof -
  have "transcriptInvariant (transcriptStep st (RequestTranscript sessionId msgId time ReachesAwait))"
    using inv by (rule transcriptInvariant_step)
  then have "transcriptInvariant (getVoiceTranscriptEnter st sessionId msgId time ReachesAwait)" by simp
  moreover from st have "time \<noteq> None" "time \<noteq> Some 0"
    "\<not> truthy (map_of (voiceTranscriptCache st) (getVoiceCacheKey sessionId msgId time))"
    "voiceTranscriptPending st (getVoiceCacheKey sessionId msgId time) = None"
    by (simp_all add: startsTranscription_def)
  ultimately show ?thesis
    unfolding transcriptWindow_def
    using st k
    by (simp add: tenter_pending tenter_running tenter_started tenter_returned startsFor_append)
qed


text \<open>
  What holds of the two in-flight maps. Take a state of either service reached by any
  events from the start, and a call whose key is not in flight and that is not served
  from the cache, so that it starts a task; for a transcription, a task that reaches an
  \<open>await\<close>. Through any further events before that call resumes (for a transcription:
  before the task ends), the tasks started for the key are that one task and no other,
  the key stays registered with it, and every call for the key resolves with the promise
  of that task, or with a cached value: decryptImage and getVoiceTranscript look into
  their cache before they look into the in-flight map. The entry of the in-flight map is
  removed by the \<open>finally\<close> block of the call that started the task, and for a
  transcription by the last section of the task, whether it succeeded or failed.
\<close>

lemma requests_share_one_task:
  assumes ihist: "ist = runImage env ihistory newDecryptService"
    and ifree: "pending ist k = None"
    and ikey: "decryptCacheKey payload = Some k" and ine: "k \<noteq> []"
    and imiss: "\<not> servedFromCache env ist payload"
    and iwin: "TaskSettled (length (returned ist)) \<notin> set ievents"
    and thist: "tst = runTranscript thistory newTranscriptService"
    and tstart: "startsTranscription tst sessionId msgId time"
    and twin: "\<forall>e \<in> set tevents. \<not> isDone (length (transcriptStarted tst)) e"
  shows "(let st1 = decryptImageEnter env ist payload;
              st2 = runImage env ievents st1;
              st3 = decryptImageFinally st2 (length (returned ist));
              t = length (started ist)
          in startsFor k (started st2) = startsFor k (started ist) @ [t]
             \<and> pending st2 k = Some t
             \<and> (\<forall>(key, out) \<in> set (drop (length (returned ist)) (returned st2)).
                   key = Some k \<longrightarrow> out = TaskResult t \<or> (\<exists>p. out = CacheHit p))
             \<and> pending st3 k = None)
       \<and> (let key = getVoiceCacheKey sessionId msgId time;
                st1 = getVoiceTranscriptEnter tst sessionId msgId time ReachesAwait;
                st2 = runTranscript tevents st1;
                t = length (transcriptStarted tst)
            in startsFor key (transcriptStarted st2) = startsFor key (transcriptStarted tst) @ [t]
               \<and> voiceTranscriptPending st2 key = Some t
               \<and> (\<forall>(key', out) \<in> set (drop (length (transcriptReturned tst)) (transcriptReturned st2)).
                     key' = Some key \<longrightarrow>
                       out = TranscriptTask t \<or> (\<exists>text. out = CachedTranscript text))
               \<and> (\<forall>result. voiceTranscriptPending (transcriptTaskDone st2 t result) key = None))"
proof -
  have iinv: "inFlightInvariant ist"
    unfolding ihist using invariant_new by (rule invariant_run)
  have "inWindow k (length (started ist)) (length (returned ist)) (length (returned ist))
          (startsFor k (started ist) @ [length (started ist)])
          (decryptImageEnter env ist payload)"
    using iinv ifree ikey ine imiss by (rule inWindow_opens)
  then have iw: "inWindow k (length (started ist)) (length (returned ist)) (length (returned ist))
          (startsFor k (started ist) @ [length (started ist)])
          (runImage env ievents (decryptImageEnter env ist payload))"
    using iwin by (rule inWindow_run)
  then have "awaiting (runImage env ievents (decryptImageEnter env ist payload))
               (length (returned ist)) = Some k"
    by (simp add: inWindow_def)
  then have ifin: "pending (decryptImageFinally
        (runImage env ievents (decryptImageEnter env ist payload)) (length (returned ist))) k = None"
    by (simp add: finally_fields)
  have tinv: "transcriptInvariant tst"
    unfolding thist using transcriptInvariant_new by (rule transcriptInvariant_run)
  have "transcriptWindow (getVoiceCacheKey sessionId msgId time) (length (transcriptStarted tst))
          (length (transcriptReturned tst))
          (startsFor (getVoiceCacheKey sessionId msgId time) (transcriptStarted tst)
             @ [length (transcriptStarted tst)])
          (getVoiceTranscriptEnter tst sessionId msgId time ReachesAwait)"
    using tinv tstart refl by (rule transcriptWindow_opens)
  then have tw: "transcriptWindow (getVoiceCacheKey sessionId msgId time)
          (length (transcriptStarted tst)) (length (transcriptReturned tst))
          (startsFor (getVoiceCacheKey sessionId msgId time) (transcriptStarted tst)
             @ [length (transcriptStarted tst)])
          (runTranscript tevents (getVoiceTranscriptEnter tst sessionId msgId time ReachesAwait))"
    using twin by (rule transcriptWindow_run)
  then have "transcriptRunning (runTranscript tevents (getVoiceTranscriptEnter tst sessionId msgId time ReachesAwait))
               (length (transcriptStarted tst)) = Some (getVoiceCacheKey sessionId msgId time)"
    by (simp add: transcriptWindow_def)
  then have tfin: "voiceTranscriptPending (transcriptTaskDone
        (runTranscript tevents (getVoiceTranscriptEnter tst sessionId msgId time ReachesAwait))
        (length (transcriptStarted tst)) result) (getVoiceCacheKey sessionId msgId time) = None"
    for result
    by (simp add: tdone_fields)
  from iw have i: "startsFor k (started (runImage env ievents (decryptImageEnter env ist payload)))
        = startsFor k (started ist) @ [length (started ist)]"
      "pending (runImage env ievents (decryptImageEnter env ist payload)) k = Some (length (started ist))"
      "\<forall>(key, out) \<in> set (drop (length (returned ist))
           (returned (runImage env ievents (decryptImageEnter env ist payload)))).
         key = Some k \<longrightarrow> out = TaskResult (length (started ist)) \<or> (\<exists>p. out = CacheHit p)"
    by (simp_all add: inWindow_def)
  from tw have t: "startsFor (getVoiceCacheKey sessionId msgId time)
          (transcriptStarted (runTranscript tevents (getVoiceTranscriptEnter tst sessionId msgId time ReachesAwait)))
        = startsFor (getVoiceCacheKey sessionId msgId time) (transcriptStarted tst)
            @ [length (transcriptStarted tst)]"
      "voiceTranscriptPending (runTranscript tevents (getVoiceTranscriptEnter tst sessionId msgId time ReachesAwait))
         (getVoiceCacheKey sessionId msgId time) = Some (length (transcriptStarted tst))"
      "\<forall>(key', out) \<in> set (drop (length (transcriptReturned tst))
           (transcriptReturned (runTranscript tevents (getVoiceTranscriptEnter tst sessionId msgId time ReachesAwait)))).
         key' = Some (getVoiceCacheKey sessionId msgId time) \<longrightarrow>
           out = TranscriptTask (length (transcriptStarted tst)) \<or> (\<exists>text. out = CachedTranscript text)"
    by (simp_all add: transcriptWindow_def)
  show ?thesis
    unfolding Let_def
    using i ifin t tfin by blast
qed


lemmas inflight_eval = runImage_def runTranscript_def decryptImageEnter_def decryptImageFinally_def
  getVoiceTranscriptEnter_def transcriptTaskDone_def newDecryptService_def newTranscriptService_def
  samplePayload_def decryptCacheKey_def servedFromCache_def truthy_def startsFor_def
  startsTranscription_def getVoiceCacheKey_def isDone_def Let_def showInt_def showNat.simps
  digitChar_def


lemma sample_image_run:
  "runImage sampleImageEnv sampleImageEvents
     (decryptImageEnter sampleImageEnv newDecryptService (samplePayload ''0123456789abcdef'' None))
   = \<lparr> resolvedCache = Map.empty, walks = [],
       pending = [''0123456789abcdef'' \<mapsto> 0, ''fedcba9876543210'' \<mapsto> 1],
       started = [(0, ''0123456789abcdef''), (1, ''fedcba9876543210'')],
       awaiting = [0 \<mapsto> ''0123456789abcdef'', Suc (Suc (Suc 0)) \<mapsto> ''fedcba9876543210''],
       returned = [(Some ''0123456789abcdef'', TaskResult 0), (Some ''0123456789abcdef'', TaskResult 0),
                   (Some ''0123456789abcdef'', TaskResult 0), (Some ''fedcba9876543210'', TaskResult 1)] \<rparr>"
  by (simp add: inflight_eval sampleImageEvents_def numeral_3_eq_3)


lemma sample_transcript_run:
  "runTranscript sampleTranscriptEvents (getVoiceTranscriptEnter newTranscriptService ''s'' ''7'' (Some 100) ReachesAwait)
   = \<lparr> voiceTranscriptCache = [], voiceTranscriptPending = [''s_100'' \<mapsto> 0],
       transcriptStarted = [(0, ''s_100'')], transcriptRunning = [0 \<mapsto> ''s_100''],
       transcriptReturned = [(Some ''s_100'', TranscriptTask 0), (Some ''s_100'', TranscriptTask 0),
                             (Some ''s_100'', TranscriptTask 0)] \<rparr>"
  by (simp add: inflight_eval sampleTranscriptEvents_def)

lemma requests_share_one_task_sample:
  "started (runImage sampleImageEnv sampleImageEvents
       (decryptImageEnter sampleImageEnv newDecryptService (samplePayload ''0123456789abcdef'' None)))
     = [(0, ''0123456789abcdef''), (1, ''fedcba9876543210'')]
   \<and> map snd (returned (runImage sampleImageEnv sampleImageEvents
       (decryptImageEnter sampleImageEnv newDecryptService (samplePayload ''0123456789abcdef'' None))))
     = [TaskResult 0, TaskResult 0, TaskResult 0, TaskResult 1]
   \<and> pending (decryptImageFinally (runImage sampleImageEnv sampleImageEvents
       (decryptImageEnter sampleImageEnv newDecryptService (samplePayload ''0123456789abcdef'' None))) 0)
       ''0123456789abcdef'' = None
   \<and> map snd (transcriptReturned (runTranscript sampleTranscriptEvents
       (getVoiceTranscriptEnter newTranscriptService ''s'' ''7'' (Some 100) ReachesAwait)))
     = [TranscriptTask 0, TranscriptTask 0, TranscriptTask 0]
   \<and> transcriptStarted (runTranscript sampleTranscriptEvents
       (getVoiceTranscriptEnter newTranscriptService ''s'' ''7'' (Some 100) ReachesAwait))
     = [(0, ''s_100'')]"
proof -
  have i0: "runImage sampleImageEnv [] newDecryptService = newDecryptService"
    by (simp add: runImage_def)
  have t0: "runTranscript [] newTranscriptService = newTranscriptService"
    by (simp add: runTranscript_def)
  have ifree: "pending newDecryptService ''0123456789abcdef'' = None"
    by (simp add: newDecryptService_def)
  have ikey: "decryptCacheKey (samplePayload ''0123456789abcdef'' None) = Some ''0123456789abcdef''"
    by (simp add: decryptCacheKey_def samplePayload_def truthy_def)
  have ine: "''0123456789abcdef'' \<noteq> []"
    by simp
  have imiss: "\<not> servedFromCache sampleImageEnv newDecryptService
                   (samplePayload ''0123456789abcdef'' None)"
    by (simp add: servedFromCache_def newDecryptService_def truthy_def ikey)
  have iwin: "TaskSettled (length (returned newDecryptService)) \<notin> set sampleImageEvents"
    by (simp add: sampleImageEvents_def)
  have tstart: "startsTranscription newTranscriptService ''s'' ''7'' (Some 100)"
    by (simp add: startsTranscription_def newTranscriptService_def truthy_def)
  have twin: "\<forall>e \<in> set sampleTranscriptEvents.
                \<not> isDone (length (transcriptStarted newTranscriptService)) e"
    by (simp add: sampleTranscriptEvents_def isDone_def)
  have fin: "pending (decryptImageFinally (runImage sampleImageEnv sampleImageEvents
       (decryptImageEnter sampleImageEnv newDecryptService (samplePayload ''0123456789abcdef'' None))) 0)
       ''0123456789abcdef'' = None"
    by (simp add: sample_image_run finally_fields)
  have c1: "started (runImage sampleImageEnv sampleImageEvents
       (decryptImageEnter sampleImageEnv newDecryptService (samplePayload ''0123456789abcdef'' None)))
     = [(0, ''0123456789abcdef''), (1, ''fedcba9876543210'')]"
    by (simp add: sample_image_run)
  have c2: "map snd (returned (runImage sampleImageEnv sampleImageEvents
       (decryptImageEnter sampleImageEnv newDecryptService (samplePayload ''0123456789abcdef'' None))))
     = [TaskResult 0, TaskResult 0, TaskResult 0, TaskResult 1]"
    by (simp add: sample_image_run)
  have c4: "map snd (transcriptReturned (runTranscript sampleTranscriptEvents
       (getVoiceTranscriptEnter newTranscriptService ''s'' ''7'' (Some 100) ReachesAwait)))
     = [TranscriptTask 0, TranscriptTask 0, TranscriptTask 0]"
    by (simp add: sample_transcript_run)
  have c5: "transcriptStarted (runTranscript sampleTranscriptEvents
       (getVoiceTranscriptEnter newTranscriptService ''s'' ''7'' (Some 100) ReachesAwait))
     = [(0, ''s_100'')]"
    by (simp add: sample_transcript_run)
  show ?thesis
    using requests_share_one_task
      [OF i0 [symmetric] ifree ikey ine imiss iwin t0 [symmetric] tstart twin]
      c1 c2 fin c4 c5
    by blast
qed

subsection \<open>A transcription that fails in its first section\<close>

lemma mapSet_values: "set (mapSet cache k v) \<subseteq> insert (k, v) (set cache)"
  by (induction cache) (auto split: if_splits)

lemma cacheVoiceTranscript_values:
  "set (cacheVoiceTranscript cache k v) \<subseteq> insert (k, v) (set cache)"
proof -
  have "set (cacheVoiceTranscript cache k v) \<subseteq> set (mapSet cache k v)"
    by (auto simp: cacheVoiceTranscript_def Let_def split: list.splits if_splits)
  with mapSet_values [of cache k v] show ?thesis by blast
qed

lemma cacheVoiceTranscript_keys:
  "fst ` set (cacheVoiceTranscript cache k v) \<subseteq> insert k (fst ` set cache)"
  using image_mono [OF cacheVoiceTranscript_values [of cache k v], of fst] by simp

lemma tdone_cache:
  "voiceTranscriptCache (transcriptTaskDone st task result) =
     (case transcriptRunning st task of
        None \<Rightarrow> voiceTranscriptCache st
      | Some key \<Rightarrow> if truthy result
                    then cacheVoiceTranscript (voiceTranscriptCache st) key (the result)
                    else voiceTranscriptCache st)"
  by (auto simp: transcriptTaskDone_def split: option.splits)

lemma cachedTexts_new: "cachedTextsInvariant newTranscriptService"
  by (simp add: cachedTextsInvariant_def newTranscriptService_def)

lemma cachedTexts_step:
  assumes "cachedTextsInvariant st"
  shows "cachedTextsInvariant (transcriptStep st e)"
proof (cases e)
  case (RequestTranscript sessionId msgId time first)
  with assms show ?thesis
    by (simp add: cachedTextsInvariant_def tenter_cache)
next
  case (TranscriptDone task result)
  show ?thesis
  proof (cases "transcriptRunning st task")
    case None
    with assms TranscriptDone show ?thesis
      by (simp add: cachedTextsInvariant_def tdone_cache)
  next
    case (Some key)
    show ?thesis
    proof (cases "truthy result")
      case False
      with assms TranscriptDone Some show ?thesis
        by (simp add: cachedTextsInvariant_def tdone_cache)
    next
      case True
      then have ne: "the result \<noteq> []"
        by (cases result) (simp_all add: truthy_def)
      have sub: "set (cacheVoiceTranscript (voiceTranscriptCache st) key (the result))
              \<subseteq> insert (key, the result) (set (voiceTranscriptCache st))"
        by (rule cacheVoiceTranscript_values)
      from assms have old: "\<And>k v. (k, v) \<in> set (voiceTranscriptCache st) \<Longrightarrow> v \<noteq> []"
        unfolding cachedTextsInvariant_def by auto
      have "v \<noteq> []"
        if "(k, v) \<in> set (cacheVoiceTranscript (voiceTranscriptCache st) key (the result))" for k v
      proof -
        from that sub have "(k, v) = (key, the result) \<or> (k, v) \<in> set (voiceTranscriptCache st)"
          by auto
        with ne old show ?thesis by auto
      qed
      then have "cachedTextsInvariant
          (st\<lparr> voiceTranscriptCache := cacheVoiceTranscript (voiceTranscriptCache st) key (the result) \<rparr>)"
        unfolding cachedTextsInvariant_def by auto
      then show ?thesis
        using TranscriptDone Some True
        by (simp add: cachedTextsInvariant_def tdone_cache)
    qed
  qed
qed

lemma cachedTexts_run:
  "cachedTextsInvariant st \<Longrightarrow> cachedTextsInvariant (runTranscript events st)"
  unfolding runTranscript_def
  by (induction events arbitrary: st) (simp_all add: cachedTexts_step)

lemma not_cached:
  assumes "cachedTextsInvariant st" and "\<not> truthy (map_of (voiceTranscriptCache st) k)"
  shows "k \<notin> fst ` set (voiceTranscriptCache st)"
proof
  assume "k \<in> fst ` set (voiceTranscriptCache st)"
  then obtain v where m: "map_of (voiceTranscriptCache st) k = Some v"
    by (metis map_of_eq_None_iff not_None_eq)
  then have "(k, v) \<in> set (voiceTranscriptCache st)"
    by (rule map_of_SomeD)
  with assms(1) have "v \<noteq> []"
    unfolding cachedTextsInvariant_def by blast
  with m assms(2) show False
    by (simp add: truthy_def)
qed

lemma stuckEntry_step:
  assumes w: "stuckEntry k t n S st"
  shows "stuckEntry k t n S (transcriptStep st e)"
proof -
  from w have p: "voiceTranscriptPending st k = Some t"
    and nr: "\<And>task. transcriptRunning st task \<noteq> Some k"
    and nc: "k \<notin> fst ` set (voiceTranscriptCache st)"
    and s: "startsFor k (transcriptStarted st) = S"
    and n: "n \<le> length (transcriptReturned st)"
    and r: "\<forall>(key, out) \<in> set (drop n (transcriptReturned st)).
              key = Some k \<longrightarrow> out = TranscriptTask t"
    by (simp_all add: stuckEntry_def)
  from nc have m: "map_of (voiceTranscriptCache st) k = None"
    by (simp add: map_of_eq_None_iff)
  show ?thesis
  proof (cases e)
    case (RequestTranscript sessionId msgId time first)
    show ?thesis
    proof (cases "startsTranscription st sessionId msgId time")
      case True
      then have other: "getVoiceCacheKey sessionId msgId time \<noteq> k"
        using p by (auto simp: startsTranscription_def)
      from True have tm: "time \<noteq> None" "time \<noteq> Some 0"
        and ncached: "\<not> truthy (map_of (voiceTranscriptCache st) (getVoiceCacheKey sessionId msgId time))"
        by (simp_all add: startsTranscription_def)
      show ?thesis
        unfolding stuckEntry_def
        using True other tm ncached p nr nc s n r RequestTranscript
        by (auto simp: tenter_pending tenter_running tenter_started tenter_returned tenter_cache
            startsFor_append)
    next
      case False
      have same: "getVoiceCacheKey sessionId msgId time = k
            \<Longrightarrow> \<not> truthy (map_of (voiceTranscriptCache st) (getVoiceCacheKey sessionId msgId time))"
        using m by (simp add: truthy_def)
      show ?thesis
        unfolding stuckEntry_def
        using False p nr nc s n r same RequestTranscript
        by (auto simp: tenter_pending tenter_running tenter_started tenter_returned tenter_cache)
    qed
  next
    case (TranscriptDone task result)
    show ?thesis
    proof (cases "transcriptRunning st task")
      case None
      with w TranscriptDone show ?thesis
        by (simp add: stuckEntry_def tdone_fields tdone_cache)
    next
      case (Some key)
      with nr have ne: "key \<noteq> k" by auto
      have "fst ` set (cacheVoiceTranscript (voiceTranscriptCache st) key (the result))
              \<subseteq> insert key (fst ` set (voiceTranscriptCache st))"
        by (rule cacheVoiceTranscript_keys)
      with nc ne have nc': "k \<notin> fst ` set (cacheVoiceTranscript (voiceTranscriptCache st) key (the result))"
        by blast
      show ?thesis
        unfolding stuckEntry_def
        using Some ne nc nc' p nr s n r TranscriptDone
        by (simp add: tdone_fields tdone_cache)
    qed
  qed
qed

lemma stuckEntry_run:
  "stuckEntry k t n S st \<Longrightarrow> stuckEntry k t n S (runTranscript events st)"
  unfolding runTranscript_def
  by (induction events arbitrary: st) (simp_all add: stuckEntry_step)

lemma stuckEntry_opens:
  assumes inv: "transcriptInvariant st" and texts: "cachedTextsInvariant st"
    and st: "startsTranscription st sessionId msgId time"
    and k: "k = getVoiceCacheKey sessionId msgId time"
  shows "stuckEntry k (length (transcriptStarted st)) (length (transcriptReturned st))
           (startsFor k (transcriptStarted st) @ [length (transcriptStarted st)])
           (getVoiceTranscriptEnter st sessionId msgId time ThrowsBeforeAwait)"
proof -
  from st have tm: "time \<noteq> None" "time \<noteq> Some 0"
    and ncached: "\<not> truthy (map_of (voiceTranscriptCache st) (getVoiceCacheKey sessionId msgId time))"
    and free: "voiceTranscriptPending st (getVoiceCacheKey sessionId msgId time) = None"
    by (simp_all add: startsTranscription_def)
  have nc: "k \<notin> fst ` set (voiceTranscriptCache st)"
    using texts ncached unfolding k by (rule not_cached)
  have nr: "transcriptRunning st task \<noteq> Some k" for task
  proof
    assume "transcriptRunning st task = Some k"
    with inv have "voiceTranscriptPending st k = Some task"
      unfolding transcriptInvariant_def by blast
    with free k show False by simp
  qed
  show ?thesis
    unfolding stuckEntry_def
    using st k tm ncached nc nr free
    by (simp add: tenter_pending tenter_running tenter_started tenter_returned tenter_cache
        startsFor_append)
qed

text \<open>
  Claim C9, evaluated where the code departs from it. getVoiceTranscript starts the task
  before it sets the in-flight map. When the first section of the task throws, the task
  completes inside the call and its \<open>finally\<close> block deletes the key before the call
  sets it. From any state the service can reach, after such a call the key stays
  registered with the completed task through all later requests and completions: the
  entry is never removed, no further transcription is started for the key, and every
  later request for the key resolves with the promise of that task, which holds its
  failure.
\<close>

theorem transcript_entry_never_removed:
  assumes hist: "st = runTranscript history newTranscriptService"
    and start: "startsTranscription st sessionId msgId time"
  shows "(let k = getVoiceCacheKey sessionId msgId time;
              t = length (transcriptStarted st);
              st1 = getVoiceTranscriptEnter st sessionId msgId time ThrowsBeforeAwait;
              st2 = runTranscript events st1
          in transcriptRunning st1 t = None
             \<and> voiceTranscriptPending st1 k = Some t
             \<and> voiceTranscriptPending st2 k = Some t
             \<and> startsFor k (transcriptStarted st2) = startsFor k (transcriptStarted st) @ [t]
             \<and> (\<forall>(key, out) \<in> set (drop (length (transcriptReturned st)) (transcriptReturned st2)).
                   key = Some k \<longrightarrow> out = TranscriptTask t))"
proof -
  define k where "k = getVoiceCacheKey sessionId msgId time"
  define st1 where "st1 = getVoiceTranscriptEnter st sessionId msgId time ThrowsBeforeAwait"
  have inv: "transcriptInvariant st"
    unfolding hist using transcriptInvariant_new by (rule transcriptInvariant_run)
  have texts: "cachedTextsInvariant st"
    unfolding hist using cachedTexts_new by (rule cachedTexts_run)
  have o: "stuckEntry k (length (transcriptStarted st)) (length (transcriptReturned st))
           (startsFor k (transcriptStarted st) @ [length (transcriptStarted st)]) st1"
    unfolding st1_def using inv texts start k_def by (rule stuckEntry_opens)
  then have w: "stuckEntry k (length (transcriptStarted st)) (length (transcriptReturned st))
           (startsFor k (transcriptStarted st) @ [length (transcriptStarted st)])
           (runTranscript events st1)"
    by (rule stuckEntry_run)
  have "transcriptRunning st (length (transcriptStarted st)) = None"
  proof (cases "transcriptRunning st (length (transcriptStarted st))")
    case (Some key)
    with inv have "length (transcriptStarted st) < length (transcriptStarted st)"
      unfolding transcriptInvariant_def by blast
    then show ?thesis by simp
  qed simp
  then have a: "transcriptRunning st1 (length (transcriptStarted st)) = None"
    by (simp add: st1_def tenter_running)
  from o have b: "voiceTranscriptPending st1 k = Some (length (transcriptStarted st))"
    by (simp add: stuckEntry_def)
  from w have c: "voiceTranscriptPending (runTranscript events st1) k
                    = Some (length (transcriptStarted st))"
    "startsFor k (transcriptStarted (runTranscript events st1))
       = startsFor k (transcriptStarted st) @ [length (transcriptStarted st)]"
    "\<forall>(key, out) \<in> set (drop (length (transcriptReturned st))
         (transcriptReturned (runTranscript events st1))).
       key = Some k \<longrightarrow> out = TranscriptTask (length (transcriptStarted st))"
    by (simp_all add: stuckEntry_def)
  show ?thesis
    unfolding Let_def k_def [symmetric] st1_def [symmetric]
    using a b c by blast
qed


lemma sample_stuck_run:
  "runTranscript sampleLaterEvents
     (getVoiceTranscriptEnter newTranscriptService ''s'' ''7'' (Some 100) ThrowsBeforeAwait)
   = \<lparr> voiceTranscriptCache = [], voiceTranscriptPending = [''s_100'' \<mapsto> 0],
       transcriptStarted = [(0, ''s_100'')], transcriptRunning = Map.empty,
       transcriptReturned = [(Some ''s_100'', TranscriptTask 0), (Some ''s_100'', TranscriptTask 0),
                             (Some ''s_100'', TranscriptTask 0)] \<rparr>"
  by (simp add: inflight_eval sampleLaterEvents_def)

lemma sample_stuck_enter:
  "getVoiceTranscriptEnter newTranscriptService ''s'' ''7'' (Some 100) ThrowsBeforeAwait
   = \<lparr> voiceTranscriptCache = [], voiceTranscriptPending = [''s_100'' \<mapsto> 0],
       transcriptStarted = [(0, ''s_100'')], transcriptRunning = Map.empty,
       transcriptReturned = [(Some ''s_100'', TranscriptTask 0)] \<rparr>"
  by (simp add: inflight_eval)

theorem transcript_entry_never_removed_witness:
  "transcriptRunning
     (getVoiceTranscriptEnter newTranscriptService ''s'' ''7'' (Some 100) ThrowsBeforeAwait) 0 = None
   \<and> voiceTranscriptPending (runTranscript sampleLaterEvents
       (getVoiceTranscriptEnter newTranscriptService ''s'' ''7'' (Some 100) ThrowsBeforeAwait))
       ''s_100'' = Some 0
   \<and> transcriptStarted (runTranscript sampleLaterEvents
       (getVoiceTranscriptEnter newTranscriptService ''s'' ''7'' (Some 100) ThrowsBeforeAwait))
     = [(0, ''s_100'')]
   \<and> map snd (transcriptReturned (runTranscript sampleLaterEvents
       (getVoiceTranscriptEnter newTranscriptService ''s'' ''7'' (Some 100) ThrowsBeforeAwait)))
     = [TranscriptTask 0, TranscriptTask 0, TranscriptTask 0]"
proof -
  have t0: "runTranscript [] newTranscriptService = newTranscriptService"
    by (simp add: runTranscript_def)
  have tstart: "startsTranscription newTranscriptService ''s'' ''7'' (Some 100)"
    by (simp add: startsTranscription_def newTranscriptService_def truthy_def)
  have c1: "transcriptRunning
     (getVoiceTranscriptEnter newTranscriptService ''s'' ''7'' (Some 100) ThrowsBeforeAwait) 0 = None"
    by (simp add: sample_stuck_enter)
  have c2: "voiceTranscriptPending (runTranscript sampleLaterEvents
       (getVoiceTranscriptEnter newTranscriptService ''s'' ''7'' (Some 100) ThrowsBeforeAwait))
       ''s_100'' = Some 0"
    by (simp add: sample_stuck_run)
  have c3: "transcriptStarted (runTranscript sampleLaterEvents
       (getVoiceTranscriptEnter newTranscriptService ''s'' ''7'' (Some 100) ThrowsBeforeAwait))
     = [(0, ''s_100'')]"
    by (simp add: sample_stuck_run)
  have c4: "map snd (transcriptReturned (runTranscript sampleLaterEvents
       (getVoiceTranscriptEnter newTranscriptService ''s'' ''7'' (Some 100) ThrowsBeforeAwait)))
     = [TranscriptTask 0, TranscriptTask 0, TranscriptTask 0]"
    by (simp add: sample_stuck_run)
  show ?thesis
    using transcript_entry_never_removed [OF t0 [symmetric] tstart, of sampleLaterEvents]
      c1 c2 c3 c4
    by blast
qed

subsection \<open>The cache is read before the in-flight map\<close>

text \<open>
  decryptImage looks into the resolved-path cache before it looks into the in-flight
  map. A request that is not forced, for a key that is in flight, resolves with the
  cached file when that file exists and is an image, and not with the pending promise.
  In the sample run the cache holds a thumbnail, a forced request starts the task, and
  the request after it receives the thumbnail.
\<close>

lemma decryptImage_cache_before_pending:
  assumes "pending st k = Some t" and "decryptCacheKey payload = Some k" and "k \<noteq> []"
    and "servedFromCache env st payload"
  shows "returned (decryptImageEnter env st payload)
           = returned st @ [(Some k, CacheHit (the (resolvedCache st k)))]"
    and "pending (decryptImageEnter env st payload) = pending st"
    and "started (decryptImageEnter env st payload) = started st"
  using assms
  by (simp_all add: enter_returned enter_pending enter_started startsTask_def truthy_def)

lemma sample_forced_run:
  "runImage sampleImageEnv sampleForcedEvents newDecryptService
   = \<lparr> resolvedCache = sampleThumbCache, walks = [],
       pending = [''0123456789abcdef'' \<mapsto> 0],
       started = [(0, ''0123456789abcdef'')],
       awaiting = [0 \<mapsto> ''0123456789abcdef''],
       returned = [(Some ''0123456789abcdef'', TaskResult 0),
                   (Some ''0123456789abcdef'', CacheHit ''/cache/0123456789abcdef_t.jpg'')] \<rparr>"
  by (simp add: inflight_eval sampleForcedEvents_def sampleThumbCache_def isImageFile_def
      toLowerCase_def lowerChar_def sampleImageEnv_def sampleExtname_def sampleBasename_def)

end
